theory Spec2Isabelle
  imports Complex_Main
begin

section \<open>Numbers, exceptions and arrays\<close>

text \<open>
  The notebook \<^verbatim>\<open>BarrierOptions.ipynb\<close> prices an up-and-out call twice: by a Monte Carlo
  sweep (code cell 3) and by a closed formula (code cell 6). Its numbers are IEEE doubles;
  this development reads every double as the real number it approximates, so rounding,
  overflow and underflow are not modelled. Where numpy or Python leaves the reals without
  raising (a division by a numpy zero, the square root of a negative number, a complex
  power), the value is \<open>None\<close>: the float is an infinity, a NaN or a complex number, or
  is computed from one, and is not tracked further. Where Python raises, the result is
  \<open>Inl\<close> of the exception.
\<close>

datatype pyerr = ValueError | ZeroDivisionError

type_synonym fl = "real option"

fun bindE :: "pyerr + 'a \<Rightarrow> ('a \<Rightarrow> pyerr + 'b) \<Rightarrow> pyerr + 'b" where
  "bindE (Inl e) f = Inl e"
| "bindE (Inr x) f = f x"

fun lift2 :: "(real \<Rightarrow> real \<Rightarrow> real) \<Rightarrow> fl \<Rightarrow> fl \<Rightarrow> fl" where
  "lift2 f (Some x) (Some y) = Some (f x y)"
| "lift2 f _ _ = None"

text \<open>Python's \<^verbatim>\<open>x / y\<close> on ints and floats: true division, raising on a zero divisor.\<close>

definition py_truediv :: "real \<Rightarrow> real \<Rightarrow> pyerr + real" where
  "py_truediv x y = (if y = 0 then Inl ZeroDivisionError else Inr (x / y))"

text \<open>\<^verbatim>\<open>math.log\<close> raises \<^verbatim>\<open>ValueError\<close> (math domain error) outside the positive reals.\<close>

definition math_log :: "real \<Rightarrow> pyerr + real" where
  "math_log s = (if s \<le> 0 then Inl ValueError else Inr (ln s))"

text \<open>\<^verbatim>\<open>np.sqrt\<close> of a negative double is NaN, with a warning and no exception.\<close>

definition np_sqrt :: "real \<Rightarrow> fl" where
  "np_sqrt x = (if x < 0 then None else Some (sqrt x))"

text \<open>A Python float divided by a numpy double: a zero divisor gives an infinity or NaN.\<close>

definition np_divide :: "real \<Rightarrow> fl \<Rightarrow> fl" where
  "np_divide x d =
     (case d of None \<Rightarrow> None
      | Some y \<Rightarrow> if y = 0 then None else Some (x / y))"

text \<open>
  Python's \<^verbatim>\<open>b ** e\<close> on floats. A zero base with a negative exponent raises; a negative
  base with a fractional exponent gives a complex number.
\<close>

definition py_pow :: "real \<Rightarrow> real \<Rightarrow> pyerr + fl" where
  "py_pow b e =
     (if 0 < b then Inr (Some (b powr e))
      else if b = 0 then
        (if e < 0 then Inl ZeroDivisionError
         else if e = 0 then Inr (Some 1) else Inr (Some 0))
      else if of_int \<lfloor>e\<rfloor> = e then Inr (Some (b powi \<lfloor>e\<rfloor>))
      else Inr None)"

text \<open>Python's \<^verbatim>\<open>int(x)\<close> on a float truncates towards zero.\<close>

definition py_int :: "real \<Rightarrow> int" where
  "py_int x = (if 0 \<le> x then \<lfloor>x\<rfloor> else \<lceil>x\<rceil>)"

text \<open>
  A two-dimensional numpy array, as its number of columns and its rows. The number of
  columns is kept apart because an array with no rows still has a width.
\<close>

record array2 =
  ncols :: nat
  rows :: "real list list"

definition wf_array2 :: "array2 \<Rightarrow> bool" where
  "wf_array2 Z = list_all (\<lambda>row. length row = ncols Z) (rows Z)"

text \<open>
  Broadcasting a vector of length \<open>a\<close> against an array of width \<open>b\<close>: the widths must
  agree, or one of them must be 1 and is stretched.
\<close>

definition broadcast_cols :: "nat \<Rightarrow> nat \<Rightarrow> pyerr + nat" where
  "broadcast_cols a b =
     (if a = b then Inr a else if a = 1 then Inr b else if b = 1 then Inr a
      else Inl ValueError)"

definition stretch :: "nat \<Rightarrow> real list \<Rightarrow> real list" where
  "stretch w xs = (if length xs = w then xs else replicate w (hd xs))"

text \<open>\<^verbatim>\<open>np.amax\<close> along a row that has at least one entry.\<close>

fun amax :: "real list \<Rightarrow> real" where
  "amax [] = 0"
| "amax (x # xs) = fold max xs x"

text \<open>
  The number of entries of an array is not a quantity that rounding changes a little, so
  it is computed as the machine computes it. \<open>fl64 x\<close> is the double nearest to \<open>x\<close>, a
  tie going to the even significand (\<open>rte\<close>); the range of the exponent is not modelled.
  Python's \<^verbatim>\<open>a / b\<close> on ints and every operation on doubles returns \<open>fl64\<close> of the exact
  result.
\<close>

definition rte :: "real \<Rightarrow> int" where
  "rte y =
     (if y - of_int \<lfloor>y\<rfloor> < 1 / 2 then \<lfloor>y\<rfloor>
      else if 1 / 2 < y - of_int \<lfloor>y\<rfloor> then \<lfloor>y\<rfloor> + 1
      else if even \<lfloor>y\<rfloor> then \<lfloor>y\<rfloor> else \<lfloor>y\<rfloor> + 1)"

definition fl64 :: "real \<Rightarrow> real" where
  "fl64 x =
     (if x = 0 then 0
      else 2 powi (\<lfloor>log 2 \<bar>x\<bar>\<rfloor> - 52) * of_int (rte (x / 2 powi (\<lfloor>log 2 \<bar>x\<bar>\<rfloor> - 52))))"

text \<open>
  \<^verbatim>\<open>np.arange(start, stop, step)\<close> for a positive step. The arguments are the reals that
  the three doubles approximate. numpy takes the length from the doubles: it is the
  ceiling of \<^verbatim>\<open>(stop - start) / step\<close>, a subtraction and a division of doubles, and no
  entry when that is not positive. The \<open>i\<close>-th entry is \<open>start + i * step\<close>.
\<close>

definition arange_len :: "real \<Rightarrow> real \<Rightarrow> real \<Rightarrow> nat" where
  "arange_len start stop step = nat \<lceil>fl64 (fl64 (fl64 stop - fl64 start) / fl64 step)\<rceil>"

definition np_arange :: "real \<Rightarrow> real \<Rightarrow> real \<Rightarrow> real list" where
  "np_arange start stop step =
     map (\<lambda>i. start + real i * step) [0..<arange_len start stop step]"

text \<open>\<^verbatim>\<open>np.mean\<close> and \<^verbatim>\<open>np.std\<close> (default \<^verbatim>\<open>ddof=0\<close>); both are NaN on an empty array.\<close>

definition np_mean :: "real list \<Rightarrow> fl" where
  "np_mean xs = (if xs = [] then None else Some (sum_list xs / real (length xs)))"

definition np_std :: "real list \<Rightarrow> fl" where
  "np_std xs =
     (case np_mean xs of None \<Rightarrow> None
      | Some mu \<Rightarrow> map_option sqrt (np_mean (map (\<lambda>x. \<bar>x - mu\<bar>\<^sup>2) xs)))"


section \<open>The standard normal distribution function\<close>

text \<open>
  \<^verbatim>\<open>scipy.stats.norm.cdf\<close> is read as the exact distribution function
  \<open>\<Phi>(x) = 1/2 + (\<integral>\<^sub>0\<^sup>x exp (- t\<^sup>2 / 2) dt) / sqrt (2 \<pi>)\<close>. The integral is given by its power
  series \<open>\<Sum>k. (- 1/2)\<^sup>k x\<^bsup>2k+1\<^esup> / (k! (2k+1))\<close>; \<open>gauss_coeff n\<close> is the coefficient of
  \<open>x\<^sup>n\<close>. That the series has derivative \<open>exp (- x\<^sup>2 / 2)\<close> and vanishes
  at 0 is proved below (\<open>DERIV_gauss_int\<close>, \<open>gauss_int_0\<close>), which determines it.
\<close>

definition gauss_coeff :: "nat \<Rightarrow> real" where
  "gauss_coeff n =
     (if even n then 0
      else (- 1 / 2) ^ ((n - 1) div 2) / (fact ((n - 1) div 2) * real n))"

definition gauss_int :: "real \<Rightarrow> real" where
  "gauss_int x = (\<Sum>n. gauss_coeff n * x ^ n)"

definition Phi :: "real \<Rightarrow> real" where
  "Phi x = 1 / 2 + gauss_int x / sqrt (2 * pi)"

definition norm_cdf :: "fl \<Rightarrow> fl" where
  "norm_cdf d = map_option Phi d"


section \<open>The Monte Carlo estimator (code cell 3)\<close>

text \<open>
  \<^verbatim>\<open>
  def option_payoff(S_0, r, sigma, Z, t, L):
      S_t = S_0*np.exp((r - sigma**2/2)*t + sigma*np.sqrt(t)*Z)
      S_m = np.amax(S_t, axis=1)  # max value of each row
      S_T = S_t[:,-1]             # terminal value of each row
      return S_T * (S_m < L)
  \<close>
  \<open>t\<close> is a vector and \<open>Z\<close> a two-dimensional array; their product broadcasts. The
  maximum along a row raises \<^verbatim>\<open>ValueError\<close> when the rows are empty. The model is exact
  for grids with no negative instant (\<^verbatim>\<open>np.sqrt\<close> of a negative instant is NaN).
\<close>

definition gbm_price :: "real \<Rightarrow> real \<Rightarrow> real \<Rightarrow> real \<Rightarrow> real \<Rightarrow> real" where
  "gbm_price S_0 r sigma tj z = S_0 * exp ((r - sigma\<^sup>2 / 2) * tj + sigma * sqrt tj * z)"

definition option_payoff ::
  "real \<Rightarrow> real \<Rightarrow> real \<Rightarrow> array2 \<Rightarrow> real list \<Rightarrow> real \<Rightarrow> pyerr + real list" where
  "option_payoff S_0 r sigma Z t L =
     bindE (broadcast_cols (length t) (ncols Z)) (\<lambda>w.
       if w = 0 then Inl ValueError
       else
         let S_t = map (\<lambda>row. map2 (gbm_price S_0 r sigma) (stretch w t) (stretch w row))
                     (rows Z);
             S_m = map amax S_t;
             S_T = map last S_t
         in Inr (map2 (\<lambda>sT sm. sT * (if sm < L then 1 else 0)) S_T S_m))"

text \<open>
  \<^verbatim>\<open>
  def discounted_call_payoff(S_T, K, r, T):
      return np.exp(-r*T)*np.maximum(S_T-K, 0)
  \<close>
\<close>

definition discounted_call_payoff :: "real list \<Rightarrow> real \<Rightarrow> real \<Rightarrow> real \<Rightarrow> real list" where
  "discounted_call_payoff S_T K r T = map (\<lambda>s. exp (- r * T) * max (s - K) 0) S_T"

text \<open>
  \<^verbatim>\<open>months = int(T*12)\<close> and, inside the loop,
  \<^verbatim>\<open>t = np.arange(1/12, (months + 1)/12, 1/12)\<close>. The grid has \<open>months\<close> entries for some
  values of \<open>months\<close> (1, 3, 6, 12, \<dots>) and one more for others (2, 4, 5, 13, \<dots>).
\<close>

definition months :: "real \<Rightarrow> int" where
  "months T = py_int (T * 12)"

definition time_grid :: "real \<Rightarrow> real list" where
  "time_grid T = np_arange (1 / 12) ((real_of_int (months T) + 1) / 12) (1 / 12)"

text \<open>
  The global generator of \<^verbatim>\<open>np.random\<close> is a state \<open>'g\<close>. \<open>draw\<close> takes one standard
  normal variate from it and returns the next state; \<^verbatim>\<open>np.random.seed(s)\<close> replaces the
  state by \<open>mk s\<close>, whatever it was. Both are parameters: the claims below hold for
  every generator. \<^verbatim>\<open>norm.rvs(size=[n, m])\<close> fills an \<open>n\<close> by \<open>m\<close> array row by row and
  raises \<^verbatim>\<open>ValueError\<close> on a negative dimension.
\<close>

fun draws :: "('g \<Rightarrow> real \<times> 'g) \<Rightarrow> nat \<Rightarrow> 'g \<Rightarrow> real list \<times> 'g" where
  "draws draw 0 g = ([], g)"
| "draws draw (Suc n) g =
     (case draw g of (z, g1) \<Rightarrow>
        (case draws draw n g1 of (zs, g2) \<Rightarrow> (z # zs, g2)))"

fun draw_rows :: "('g \<Rightarrow> real \<times> 'g) \<Rightarrow> nat \<Rightarrow> nat \<Rightarrow> 'g \<Rightarrow> real list list \<times> 'g" where
  "draw_rows draw 0 m g = ([], g)"
| "draw_rows draw (Suc n) m g =
     (case draws draw m g of (row, g1) \<Rightarrow>
        (case draw_rows draw n m g1 of (rs, g2) \<Rightarrow> (row # rs, g2)))"

definition norm_rvs ::
  "('g \<Rightarrow> real \<times> 'g) \<Rightarrow> nat \<Rightarrow> int \<Rightarrow> 'g \<Rightarrow> pyerr + (array2 \<times> 'g)" where
  "norm_rvs draw n m g =
     (if m < 0 then Inl ValueError
      else case draw_rows draw n (nat m) g of
             (rs, g') \<Rightarrow> Inr (\<lparr>ncols = nat m, rows = rs\<rparr>, g'))"

definition np_random_seed :: "(nat \<Rightarrow> 'g) \<Rightarrow> nat \<Rightarrow> 'g \<Rightarrow> 'g" where
  "np_random_seed mk s g = mk s"

text \<open>
  The reduction at the end of the loop body, for loop index \<open>i\<close>:
  \<^verbatim>\<open>
  call_est[i-1] = np.mean(call_val)
  call_std[i-1] = np.std(call_val)/np.sqrt(i*1000)
  \<close>
\<close>

definition mc_reduce :: "nat \<Rightarrow> real list \<Rightarrow> fl \<times> fl" where
  "mc_reduce i call_val =
     (np_mean call_val, map_option (\<lambda>s. s / sqrt (real (i * 1000))) (np_std call_val))"

text \<open>
  The loop body for index \<open>i\<close>:
  \<^verbatim>\<open>
  t = np.arange(1/12, (months + 1)/12, 1/12)
  Z_s = norm.rvs(size = [i*1000, months])
  S_T = option_payoff(S_0, r, sigma, Z_s, t, L)
  call_val = discounted_call_payoff(S_T, K, r, T)
  \<close>
  followed by the reduction. It returns the pair stored in \<^verbatim>\<open>call_est[i-1]\<close> and
  \<^verbatim>\<open>call_std[i-1]\<close>, and the generator's next state.
\<close>

definition mc_trial ::
  "('g \<Rightarrow> real \<times> 'g) \<Rightarrow> real \<Rightarrow> real \<Rightarrow> real \<Rightarrow> real \<Rightarrow> real \<Rightarrow> real \<Rightarrow> nat \<Rightarrow> 'g
     \<Rightarrow> pyerr + ((fl \<times> fl) \<times> 'g)" where
  "mc_trial draw S_0 r sigma K T L i g =
     (let t = time_grid T in
      bindE (norm_rvs draw (i * 1000) (months T) g) (\<lambda>(Z_s, g').
      bindE (option_payoff S_0 r sigma Z_s t L) (\<lambda>S_T.
        Inr (mc_reduce i (discounted_call_payoff S_T K r T), g'))))"

text \<open>
  \<^verbatim>\<open>for i in range(1, 51)\<close>, as a recursion over the list of indices; an exception in
  one iteration ends the cell.
\<close>

fun sweep ::
  "('g \<Rightarrow> real \<times> 'g) \<Rightarrow> real \<Rightarrow> real \<Rightarrow> real \<Rightarrow> real \<Rightarrow> real \<Rightarrow> real \<Rightarrow> nat list \<Rightarrow> 'g
     \<Rightarrow> pyerr + ((fl \<times> fl) list \<times> 'g)" where
  "sweep draw S_0 r sigma K T L [] g = Inr ([], g)"
| "sweep draw S_0 r sigma K T L (i # is) g =
     bindE (mc_trial draw S_0 r sigma K T L i g) (\<lambda>(e, g1).
     bindE (sweep draw S_0 r sigma K T L is g1) (\<lambda>(es, g2). Inr (e # es, g2)))"

text \<open>
  The cell: \<^verbatim>\<open>np.random.seed(0)\<close> (the seed is a parameter here), then the loop. \<open>g\<close> is
  the generator's state when the cell starts.
\<close>

definition monte_carlo ::
  "(nat \<Rightarrow> 'g) \<Rightarrow> ('g \<Rightarrow> real \<times> 'g) \<Rightarrow> nat \<Rightarrow> real \<Rightarrow> real \<Rightarrow> real \<Rightarrow> real \<Rightarrow> real \<Rightarrow> real
     \<Rightarrow> 'g \<Rightarrow> pyerr + ((fl \<times> fl) list \<times> 'g)" where
  "monte_carlo mk draw seed S_0 r sigma K T L g =
     sweep draw S_0 r sigma K T L [1..<51] (np_random_seed mk seed g)"


section \<open>The closed formula (code cell 6)\<close>

text \<open>
  \<^verbatim>\<open>
  def delta_plus(tau, s, sigma, r):
      return (math.log(s)+(r+sigma**2/2)*tau)/(sigma*np.sqrt(tau))

  def delta_minus(tau, s, sigma, r):
      return (math.log(s)+(r-sigma**2/2)*tau)/(sigma*np.sqrt(tau))
  \<close>
\<close>

definition delta_plus :: "real \<Rightarrow> real \<Rightarrow> real \<Rightarrow> real \<Rightarrow> pyerr + fl" where
  "delta_plus tau s sigma r =
     bindE (math_log s) (\<lambda>lg.
       Inr (np_divide (lg + (r + sigma\<^sup>2 / 2) * tau) (map_option ((*) sigma) (np_sqrt tau))))"

definition delta_minus :: "real \<Rightarrow> real \<Rightarrow> real \<Rightarrow> real \<Rightarrow> pyerr + fl" where
  "delta_minus tau s sigma r =
     bindE (math_log s) (\<lambda>lg.
       Inr (np_divide (lg + (r - sigma\<^sup>2 / 2) * tau) (map_option ((*) sigma) (np_sqrt tau))))"

text \<open>
  The four terms, each evaluated left to right as Python does:
  \<^verbatim>\<open>
  p1 = (norm.cdf(delta_plus(T, S_0/K, sigma, r))-norm.cdf(delta_plus(T, S_0/L, sigma, r)))*S_0
  p2 = (norm.cdf(delta_minus(T, S_0/K, sigma, r))-norm.cdf(delta_minus(T, S_0/L, sigma, r)))*K*np.exp(-r*T)
  p3 = (norm.cdf(delta_plus(T, L**2/(K*S_0), sigma, r))-norm.cdf(delta_plus(T, L/S_0, sigma, r)))*L*(S_0/L)**(-2*r/sigma**2)
  p4 = (norm.cdf(delta_minus(T, L**2/(K*S_0), sigma, r))-norm.cdf(delta_minus(T, L/S_0, sigma, r)))*K*np.exp(-r*T)*(S_0/L)**(1-2*r/sigma**2)
  analytical_callprice = p1-p2-p3+p4
  \<close>
  \<open>cdf_diff delta T a b c d\<close> is the bracket
  \<^verbatim>\<open>norm.cdf(delta(T, a/b, ..)) - norm.cdf(delta(T, c/d, ..))\<close>.
\<close>

definition cdf_diff ::
  "(real \<Rightarrow> real \<Rightarrow> real \<Rightarrow> real \<Rightarrow> pyerr + fl) \<Rightarrow> real \<Rightarrow> real \<Rightarrow> real \<Rightarrow> real \<Rightarrow> real
     \<Rightarrow> real \<Rightarrow> real \<Rightarrow> pyerr + fl" where
  "cdf_diff delta T sigma r a b c d =
     bindE (py_truediv a b) (\<lambda>s1.
     bindE (delta T s1 sigma r) (\<lambda>d1.
     bindE (py_truediv c d) (\<lambda>s2.
     bindE (delta T s2 sigma r) (\<lambda>d2.
       Inr (lift2 (-) (norm_cdf d1) (norm_cdf d2))))))"

definition p1 :: "real \<Rightarrow> real \<Rightarrow> real \<Rightarrow> real \<Rightarrow> real \<Rightarrow> real \<Rightarrow> pyerr + fl" where
  "p1 S_0 K L T sigma r =
     bindE (cdf_diff delta_plus T sigma r S_0 K S_0 L) (\<lambda>b.
       Inr (lift2 (*) b (Some S_0)))"

definition p2 :: "real \<Rightarrow> real \<Rightarrow> real \<Rightarrow> real \<Rightarrow> real \<Rightarrow> real \<Rightarrow> pyerr + fl" where
  "p2 S_0 K L T sigma r =
     bindE (cdf_diff delta_minus T sigma r S_0 K S_0 L) (\<lambda>b.
       Inr (lift2 (*) (lift2 (*) b (Some K)) (Some (exp (- r * T)))))"

definition p3 :: "real \<Rightarrow> real \<Rightarrow> real \<Rightarrow> real \<Rightarrow> real \<Rightarrow> real \<Rightarrow> pyerr + fl" where
  "p3 S_0 K L T sigma r =
     bindE (cdf_diff delta_plus T sigma r (L\<^sup>2) (K * S_0) L S_0) (\<lambda>b.
     bindE (py_truediv S_0 L) (\<lambda>base.
     bindE (py_truediv (- 2 * r) (sigma\<^sup>2)) (\<lambda>e.
     bindE (py_pow base e) (\<lambda>pw.
       Inr (lift2 (*) (lift2 (*) b (Some L)) pw)))))"

definition p4 :: "real \<Rightarrow> real \<Rightarrow> real \<Rightarrow> real \<Rightarrow> real \<Rightarrow> real \<Rightarrow> pyerr + fl" where
  "p4 S_0 K L T sigma r =
     bindE (cdf_diff delta_minus T sigma r (L\<^sup>2) (K * S_0) L S_0) (\<lambda>b.
     bindE (py_truediv S_0 L) (\<lambda>base.
     bindE (py_truediv (2 * r) (sigma\<^sup>2)) (\<lambda>q.
     bindE (py_pow base (1 - q)) (\<lambda>pw.
       Inr (lift2 (*) (lift2 (*) (lift2 (*) b (Some K)) (Some (exp (- r * T)))) pw)))))"

definition analytical_callprice ::
  "real \<Rightarrow> real \<Rightarrow> real \<Rightarrow> real \<Rightarrow> real \<Rightarrow> real \<Rightarrow> pyerr + fl" where
  "analytical_callprice S_0 K L T sigma r =
     bindE (p1 S_0 K L T sigma r) (\<lambda>a.
     bindE (p2 S_0 K L T sigma r) (\<lambda>b.
     bindE (p3 S_0 K L T sigma r) (\<lambda>c.
     bindE (p4 S_0 K L T sigma r) (\<lambda>d.
       Inr (lift2 (+) (lift2 (-) (lift2 (-) a b) c) d)))))"


section \<open>The specification's formulas\<close>

text \<open>
  The helper of the specification's section 4.3, in its words:
  \<open>\<delta>\<plusminus>(\<tau>, s) = [ln s + (r \<plusminus> \<sigma>\<^sup>2 / 2) \<tau>] / (\<sigma> \<surd>\<tau>)\<close>.
\<close>

definition spec_delta_plus :: "real \<Rightarrow> real \<Rightarrow> real \<Rightarrow> real \<Rightarrow> real" where
  "spec_delta_plus tau s sigma r = (ln s + (r + sigma\<^sup>2 / 2) * tau) / (sigma * sqrt tau)"

definition spec_delta_minus :: "real \<Rightarrow> real \<Rightarrow> real \<Rightarrow> real \<Rightarrow> real" where
  "spec_delta_minus tau s sigma r = (ln s + (r - sigma\<^sup>2 / 2) * tau) / (sigma * sqrt tau)"

text \<open>
  The price of section 4.3, in the specification's layout:
  \<^verbatim>\<open>
  V = S0 [Phi(d+(T,S0/K)) - Phi(d+(T,S0/L))]
    - K e^(-rT) [Phi(d-(T,S0/K)) - Phi(d-(T,S0/L))]
    - L (S0/L)^(-2r/sigma^2) [Phi(d+(T,L^2/(K S0))) - Phi(d+(T,L/S0))]
    + K e^(-rT) (S0/L)^q [Phi(d-(T,L^2/(K S0))) - Phi(d-(T,L/S0))]
  \<close>
  with the exponent \<open>q\<close> of the fourth term as a parameter. The specification writes
  \<open>q = - 2r/\<sigma>\<^sup>2 - 1\<close>.
\<close>

definition four_term_price ::
  "real \<Rightarrow> real \<Rightarrow> real \<Rightarrow> real \<Rightarrow> real \<Rightarrow> real \<Rightarrow> real \<Rightarrow> real" where
  "four_term_price q S_0 K L T sigma r =
     S_0 * (Phi (spec_delta_plus T (S_0 / K) sigma r) - Phi (spec_delta_plus T (S_0 / L) sigma r))
     - K * exp (- r * T)
         * (Phi (spec_delta_minus T (S_0 / K) sigma r) - Phi (spec_delta_minus T (S_0 / L) sigma r))
     - L * (S_0 / L) powr (- 2 * r / sigma\<^sup>2)
         * (Phi (spec_delta_plus T (L\<^sup>2 / (K * S_0)) sigma r)
            - Phi (spec_delta_plus T (L / S_0) sigma r))
     + K * exp (- r * T) * (S_0 / L) powr q
         * (Phi (spec_delta_minus T (L\<^sup>2 / (K * S_0)) sigma r)
            - Phi (spec_delta_minus T (L / S_0) sigma r))"

definition spec_price :: "real \<Rightarrow> real \<Rightarrow> real \<Rightarrow> real \<Rightarrow> real \<Rightarrow> real \<Rightarrow> real" where
  "spec_price S_0 K L T sigma r = four_term_price (- 2 * r / sigma\<^sup>2 - 1) S_0 K L T sigma r"


text \<open>
  The reduction of the specification's section 4.2: the average, and the standard error
  \<open>sample_std / sqrt N\<close> with the sample standard deviation (divisor \<open>N - 1\<close>).
\<close>

definition average :: "real list \<Rightarrow> real" where
  "average xs = sum_list xs / real (length xs)"

definition sample_std :: "real list \<Rightarrow> real" where
  "sample_std xs = sqrt (sum_list (map (\<lambda>x. (x - average xs)\<^sup>2) xs) / (real (length xs) - 1))"

definition spec_std_error :: "real list \<Rightarrow> real" where
  "spec_std_error xs = sample_std xs / sqrt (real (length xs))"


section \<open>Two runs of the cell\<close>

text \<open>
  Two outcomes agree up to a relation \<open>R\<close> between generator states when both raise the
  same exception, or both return the same value and leave the generators in related
  states.
\<close>

fun same_outcome ::
  "('g \<Rightarrow> 'h \<Rightarrow> bool) \<Rightarrow> pyerr + ('a \<times> 'g) \<Rightarrow> pyerr + ('a \<times> 'h) \<Rightarrow> bool" where
  "same_outcome R (Inl e) (Inl e') = (e = e')"
| "same_outcome R (Inr (a, g)) (Inr (b, h)) = (a = b \<and> R g h)"
| "same_outcome R (Inl e) (Inr y) = False"
| "same_outcome R (Inr x) (Inl e) = False"


section \<open>Sample inputs\<close>

text \<open>
  A thousand discounted payoffs, half of them 0 and half of them 2; one draw for one path
  at one instant; two paths at two instants.
\<close>

definition half_paid :: "real list" where
  "half_paid = replicate 500 0 @ replicate 500 2"


definition two_paths :: array2 where
  "two_paths = \<lparr>ncols = 2, rows = [[0, 0], [1, - 1]]\<rparr>"

text \<open>
  Two generators that produce the stream \<open>0, 1, 2, \<dots>\<close> from seed 0: a counter, and a
  counter that also flips a flag.
\<close>

definition counter_draw :: "nat \<Rightarrow> real \<times> nat" where
  "counter_draw g = (real g, Suc g)"

definition tagged_draw :: "nat \<times> bool \<Rightarrow> real \<times> (nat \<times> bool)" where
  "tagged_draw h = (real (fst h), (Suc (fst h), \<not> snd h))"


section \<open>The distribution function: derivative, monotonicity, bounds\<close>

lemma diffs_gauss_coeff:
  "diffs gauss_coeff n = (if even n then (- 1 / 2) ^ (n div 2) / fact (n div 2) else 0)"
proof (cases "even n")
  case True
  then obtain k where n: "n = 2 * k" by (auto elim: evenE)
  show ?thesis
    by (simp add: diffs_def gauss_coeff_def n del: of_nat_Suc)
next
  case False
  then show ?thesis
    by (simp add: diffs_def gauss_coeff_def)
qed

lemma gauss_density_sums:
  "(\<lambda>n. diffs gauss_coeff n * x ^ n) sums exp (- (x\<^sup>2) / 2)"
proof -
  have e: "(\<lambda>k. (- (x\<^sup>2) / 2) ^ k /\<^sub>R fact k) sums exp (- (x\<^sup>2) / 2)"
    by (rule exp_converges)
  have z: "(\<lambda>k::nat. 0::real) sums 0"
    by simp
  have "(\<lambda>n. if even n then (- (x\<^sup>2) / 2) ^ (n div 2) /\<^sub>R fact (n div 2) else 0)
          sums (0 + exp (- (x\<^sup>2) / 2))"
    by (rule sums_if [OF z e])
  moreover have "(\<lambda>n. if even n then (- (x\<^sup>2) / 2) ^ (n div 2) /\<^sub>R fact (n div 2) else 0)
      = (\<lambda>n. diffs gauss_coeff n * x ^ n)"
  proof
    fix n :: nat
    show "(if even n then (- (x\<^sup>2) / 2) ^ (n div 2) /\<^sub>R fact (n div 2) else 0)
        = diffs gauss_coeff n * x ^ n"
    proof (cases "even n")
      case True
      then obtain k where n: "n = 2 * k" by (auto elim: evenE)
      have "(- (x\<^sup>2) / 2) ^ k = (- 1 / 2) ^ k * x ^ (2 * k)"
      proof -
        have "(- (x\<^sup>2) / 2) = (- 1 / 2) * x\<^sup>2" by simp
        then have "(- (x\<^sup>2) / 2) ^ k = (- 1 / 2) ^ k * (x\<^sup>2) ^ k"
          by (simp only: power_mult_distrib)
        then show ?thesis by (simp only: power_mult)
      qed
      then show ?thesis
        by (simp add: diffs_gauss_coeff n scaleR_conv_of_real field_simps)
    next
      case False
      then show ?thesis by (simp add: diffs_gauss_coeff)
    qed
  qed
  ultimately show ?thesis by simp
qed

lemma gauss_coeff_summable: "summable (\<lambda>n. gauss_coeff n * y ^ n)"
proof -
  let ?g = "\<lambda>k. \<bar>y\<bar> * ((y\<^sup>2 / 2) ^ k /\<^sub>R fact k)"
  have "?g sums (\<bar>y\<bar> * exp (y\<^sup>2 / 2))"
    by (intro sums_mult exp_converges)
  then have "(\<lambda>n. if even n then 0 else ?g ((n - 1) div 2)) sums (\<bar>y\<bar> * exp (y\<^sup>2 / 2))"
    by (rule sums_if')
  then have s: "summable (\<lambda>n. if even n then 0 else ?g ((n - 1) div 2))"
    by (rule sums_summable)
  show ?thesis
  proof (rule summable_comparison_test [OF _ s], intro exI allI impI)
    fix n :: nat
    show "norm (gauss_coeff n * y ^ n) \<le> (if even n then 0 else ?g ((n - 1) div 2))"
    proof (cases "even n")
      case True
      then show ?thesis by (simp add: gauss_coeff_def)
    next
      case False
      then obtain k where n: "n = 2 * k + 1" by (auto elim: oddE)
      have "norm (gauss_coeff n * y ^ n)
          = (1 / 2) ^ k * \<bar>y\<bar> ^ (2 * k + 1) / (fact k * real (2 * k + 1))"
        by (simp add: gauss_coeff_def n abs_mult power_abs power_divide)
      also have "\<dots> = ?g k / real (2 * k + 1)"
      proof -
        have h: "\<bar>y\<bar> ^ (2 * k + 1) = \<bar>y\<bar> * (y\<^sup>2) ^ k"
          by (simp add: power_mult)
        show ?thesis
          unfolding h by (simp add: power_divide scaleR_conv_of_real field_simps)
      qed
      also have "\<dots> \<le> ?g k"
      proof -
        have "0 \<le> ?g k" by simp
        moreover have "1 \<le> real (2 * k + 1)" by simp
        ultimately have "?g k / real (2 * k + 1) \<le> ?g k / 1"
          by (intro divide_left_mono) simp_all
        then show ?thesis by simp
      qed
      finally show ?thesis using False by (simp add: n)
    qed
  qed
qed

lemma DERIV_gauss_int: "DERIV gauss_int x :> exp (- (x\<^sup>2) / 2)"
proof -
  have "((\<lambda>x. \<Sum>n. gauss_coeff n * x ^ n) has_field_derivative
          (\<Sum>n. diffs gauss_coeff n * x ^ n)) (at x)"
    by (rule termdiffs_strong_converges_everywhere) (rule gauss_coeff_summable)
  moreover have "(\<Sum>n. diffs gauss_coeff n * x ^ n) = exp (- (x\<^sup>2) / 2)"
    using gauss_density_sums by (rule sums_unique [symmetric])
  ultimately show ?thesis
    unfolding gauss_int_def [abs_def] by simp
qed

lemma gauss_int_0: "gauss_int 0 = 0"
proof -
  have "(\<lambda>n. gauss_coeff n * 0 ^ n) = (\<lambda>n. 0)"
    by (rule ext) (simp add: gauss_coeff_def power_0_left)
  then show ?thesis by (simp add: gauss_int_def)
qed

lemma gauss_int_minus: "gauss_int (- x) = - gauss_int x"
proof -
  have "(\<lambda>n. gauss_coeff n * (- x) ^ n) = (\<lambda>n. - (gauss_coeff n * x ^ n))"
    by (rule ext) (simp add: gauss_coeff_def)
  then have "gauss_int (- x) = (\<Sum>n. - (gauss_coeff n * x ^ n))"
    by (simp add: gauss_int_def)
  also have "\<dots> = - (\<Sum>n. gauss_coeff n * x ^ n)"
    by (rule suminf_minus) (rule gauss_coeff_summable)
  finally show ?thesis by (simp add: gauss_int_def)
qed

lemma DERIV_Phi: "DERIV Phi x :> exp (- (x\<^sup>2) / 2) / sqrt (2 * pi)"
proof -
  have "DERIV (\<lambda>x. gauss_int x / sqrt (2 * pi)) x :> exp (- (x\<^sup>2) / 2) / sqrt (2 * pi)"
    by (rule DERIV_cdivide [OF DERIV_gauss_int])
  then have "DERIV (\<lambda>x. 1 / 2 + gauss_int x / sqrt (2 * pi)) x
      :> 0 + exp (- (x\<^sup>2) / 2) / sqrt (2 * pi)"
    by (intro DERIV_add DERIV_const)
  then show ?thesis
    unfolding Phi_def [abs_def] by simp
qed

lemma Phi_strict_mono:
  assumes "x < y"
  shows "Phi x < Phi y"
proof (rule DERIV_pos_imp_increasing [OF assms])
  fix z
  have "0 < exp (- (z\<^sup>2) / 2) / sqrt (2 * pi)" by simp
  then show "\<exists>d. DERIV Phi z :> d \<and> 0 < d"
    using DERIV_Phi by blast
qed

lemma Phi_eq_iff: "Phi x = Phi y \<longleftrightarrow> x = y"
  using Phi_strict_mono [of x y] Phi_strict_mono [of y x]
  by (cases x y rule: linorder_cases) auto

lemma Phi_diff: "Phi x - Phi y = (gauss_int x - gauss_int y) / sqrt (2 * pi)"
  by (simp add: Phi_def diff_divide_distrib)

text \<open>Two bounds on the integral, each from the sign of a derivative.\<close>

lemma gauss_int_1_lower: "5 / 6 \<le> gauss_int 1"
proof -
  let ?h = "\<lambda>x. gauss_int x - (x - x ^ 3 / 6)"
  have "?h 0 \<le> ?h 1"
  proof (rule DERIV_nonneg_imp_nondecreasing [where f = ?h])
    fix x :: real
    have "DERIV ?h x :> exp (- (x\<^sup>2) / 2) - (1 - x\<^sup>2 / 2)"
      by (auto intro!: derivative_eq_intros DERIV_gauss_int)
    moreover have "0 \<le> exp (- (x\<^sup>2) / 2) - (1 - x\<^sup>2 / 2)"
      using exp_ge_add_one_self [of "- (x\<^sup>2) / 2"] by simp
    ultimately show "\<exists>d. DERIV ?h x :> d \<and> 0 \<le> d" by blast
  qed simp
  then show ?thesis by (simp add: gauss_int_0)
qed

lemma gauss_int_2_upper: "gauss_int 2 \<le> gauss_int 1 + exp (- (1 / 2)) - exp (- (3 / 2))"
proof -
  let ?h = "\<lambda>x. - exp (1 / 2 - x) - gauss_int x"
  have "?h 1 \<le> ?h 2"
  proof (rule DERIV_nonneg_imp_nondecreasing [where f = ?h])
    fix x :: real
    have "DERIV ?h x :> exp (1 / 2 - x) - exp (- (x\<^sup>2) / 2)"
      by (auto intro!: derivative_eq_intros DERIV_gauss_int)
    moreover have "0 \<le> exp (1 / 2 - x) - exp (- (x\<^sup>2) / 2)"
    proof -
      have "0 \<le> (x - 1)\<^sup>2" by simp
      then have "- (x\<^sup>2) / 2 \<le> 1 / 2 - x" by (simp add: power2_eq_square algebra_simps)
      then show ?thesis by simp
    qed
    ultimately show "\<exists>d. DERIV ?h x :> d \<and> 0 \<le> d" by blast
  qed simp
  then show ?thesis by simp
qed


section \<open>The closed formula on positive parameters\<close>

lemma delta_plus_value:
  assumes "0 < s" "0 < tau" "0 < sigma"
  shows "delta_plus tau s sigma r = Inr (Some (spec_delta_plus tau s sigma r))"
  using assms
  by (simp add: delta_plus_def math_log_def np_sqrt_def np_divide_def spec_delta_plus_def)

lemma delta_minus_value:
  assumes "0 < s" "0 < tau" "0 < sigma"
  shows "delta_minus tau s sigma r = Inr (Some (spec_delta_minus tau s sigma r))"
  using assms
  by (simp add: delta_minus_def math_log_def np_sqrt_def np_divide_def spec_delta_minus_def)

lemma cdf_diff_plus_value:
  assumes "0 < a" "0 < b" "0 < c" "0 < d" "0 < T" "0 < sigma"
  shows "cdf_diff delta_plus T sigma r a b c d =
    Inr (Some (Phi (spec_delta_plus T (a / b) sigma r) - Phi (spec_delta_plus T (c / d) sigma r)))"
  using assms
  by (simp add: cdf_diff_def py_truediv_def delta_plus_value norm_cdf_def)

lemma cdf_diff_minus_value:
  assumes "0 < a" "0 < b" "0 < c" "0 < d" "0 < T" "0 < sigma"
  shows "cdf_diff delta_minus T sigma r a b c d =
    Inr (Some (Phi (spec_delta_minus T (a / b) sigma r) - Phi (spec_delta_minus T (c / d) sigma r)))"
  using assms
  by (simp add: cdf_diff_def py_truediv_def delta_minus_value norm_cdf_def)

lemma p1_value:
  assumes "0 < S_0" "0 < K" "0 < L" "0 < T" "0 < sigma"
  shows "p1 S_0 K L T sigma r = Inr (Some
    ((Phi (spec_delta_plus T (S_0 / K) sigma r) - Phi (spec_delta_plus T (S_0 / L) sigma r)) * S_0))"
  using assms by (simp add: p1_def cdf_diff_plus_value)

lemma p2_value:
  assumes "0 < S_0" "0 < K" "0 < L" "0 < T" "0 < sigma"
  shows "p2 S_0 K L T sigma r = Inr (Some
    ((Phi (spec_delta_minus T (S_0 / K) sigma r) - Phi (spec_delta_minus T (S_0 / L) sigma r))
       * K * exp (- r * T)))"
  using assms by (simp add: p2_def cdf_diff_minus_value)

lemma p3_value:
  assumes "0 < S_0" "0 < K" "0 < L" "0 < T" "0 < sigma"
  shows "p3 S_0 K L T sigma r = Inr (Some
    ((Phi (spec_delta_plus T (L\<^sup>2 / (K * S_0)) sigma r) - Phi (spec_delta_plus T (L / S_0) sigma r))
       * L * (S_0 / L) powr (- 2 * r / sigma\<^sup>2)))"
  using assms by (simp add: p3_def cdf_diff_plus_value py_truediv_def py_pow_def)

lemma p4_value:
  assumes "0 < S_0" "0 < K" "0 < L" "0 < T" "0 < sigma"
  shows "p4 S_0 K L T sigma r = Inr (Some
    ((Phi (spec_delta_minus T (L\<^sup>2 / (K * S_0)) sigma r) - Phi (spec_delta_minus T (L / S_0) sigma r))
       * K * exp (- r * T) * (S_0 / L) powr (1 - 2 * r / sigma\<^sup>2)))"
  using assms by (simp add: p4_def cdf_diff_minus_value py_truediv_def py_pow_def)

lemma analytical_callprice_value:
  assumes "0 < S_0" "0 < K" "0 < L" "0 < T" "0 < sigma"
  shows "analytical_callprice S_0 K L T sigma r
    = Inr (Some (four_term_price (1 - 2 * r / sigma\<^sup>2) S_0 K L T sigma r))"
  using assms
  by (simp add: analytical_callprice_def p1_value p2_value p3_value p4_value
      four_term_price_def mult_ac)


section \<open>The gap between the two helpers\<close>

lemma spec_delta_gap:
  assumes "0 < tau" "0 < sigma"
  shows "spec_delta_plus tau s sigma r - spec_delta_minus tau s sigma r = sigma * sqrt tau"
proof -
  have "spec_delta_plus tau s sigma r - spec_delta_minus tau s sigma r
      = (sigma\<^sup>2 * tau) / (sigma * sqrt tau)"
    unfolding spec_delta_plus_def spec_delta_minus_def
    by (simp add: diff_divide_distrib [symmetric] algebra_simps)
  also have "\<dots> = sigma * (tau / sqrt tau)"
    using assms by (simp add: power2_eq_square)
  also have "\<dots> = sigma * sqrt tau"
    using assms by (simp only: real_div_sqrt [OF less_imp_le])
  finally show ?thesis .
qed

text \<open>
  Claim C10. For \<open>tau > 0\<close>, \<open>s > 0\<close>, \<open>sigma > 0\<close> and any \<open>r\<close>, both helpers return a
  real number, and \<open>delta_plus(tau, s, sigma, r) - delta_minus(tau, s, sigma, r)\<close> is
  \<open>sigma * sqrt tau\<close>.
\<close>

theorem delta_plus_minus_gap:
  assumes "0 < tau" "0 < s" "0 < sigma"
  shows "\<exists>dp dm. delta_plus tau s sigma r = Inr (Some dp)
           \<and> delta_minus tau s sigma r = Inr (Some dm)
           \<and> dp - dm = sigma * sqrt tau"
  using assms by (simp add: delta_plus_value delta_minus_value spec_delta_gap)

theorem delta_plus_minus_gap_witness:
  "(0::real) < 1 \<and> (0::real) < 3 / 2 \<and> (0::real) < 3 / 10
   \<and> (\<exists>dp dm. delta_plus 1 (3 / 2) (3 / 10) (2 / 25) = Inr (Some dp)
           \<and> delta_minus 1 (3 / 2) (3 / 10) (2 / 25) = Inr (Some dm)
           \<and> dp - dm = 3 / 10 * sqrt 1)"
  using delta_plus_minus_gap [of 1 "3 / 2" "3 / 10" "2 / 25"] by simp

section \<open>Claim C9: the closed formula is homogeneous of degree one\<close>

lemma scaled_ratio: "c \<noteq> 0 \<Longrightarrow> (c * a) / (c * b) = a / (b::real)"
  by simp

lemma scaled_square_ratio:
  "c \<noteq> 0 \<Longrightarrow> (c * L)\<^sup>2 / (c * K * (c * S)) = L\<^sup>2 / (K * (S::real))"
  by (simp add: power2_eq_square)

lemma four_term_price_scaled:
  assumes "c \<noteq> 0"
  shows "four_term_price q (c * S_0) (c * K) (c * L) T sigma r
    = c * four_term_price q S_0 K L T sigma r"
  unfolding four_term_price_def scaled_ratio [OF assms] scaled_square_ratio [OF assms]
  by (simp add: algebra_simps)

text \<open>
  Claim C9. For every \<open>c > 0\<close> and all \<open>S_0, K, L, T, sigma > 0\<close>, the closed formula
  returns a price \<open>v\<close>, and on \<open>(c S_0, c K, c L)\<close> it returns exactly \<open>c v\<close>.
\<close>

theorem analytical_callprice_homogeneous:
  assumes "0 < c" "0 < S_0" "0 < K" "0 < L" "0 < T" "0 < sigma"
  shows "\<exists>v. analytical_callprice S_0 K L T sigma r = Inr (Some v)
           \<and> analytical_callprice (c * S_0) (c * K) (c * L) T sigma r = Inr (Some (c * v))"
proof -
  have pos: "0 < c * S_0" "0 < c * K" "0 < c * L" using assms by simp_all
  have "analytical_callprice (c * S_0) (c * K) (c * L) T sigma r
      = Inr (Some (c * four_term_price (1 - 2 * r / sigma\<^sup>2) S_0 K L T sigma r))"
    using assms(1)
    by (simp add: analytical_callprice_value [OF pos assms(5,6)] four_term_price_scaled)
  then show ?thesis
    using analytical_callprice_value [OF assms(2-6)] by simp
qed

theorem analytical_callprice_homogeneous_witness:
  "(0::real) < 2 \<and> (0::real) < 100 \<and> (0::real) < 150 \<and> (0::real) < 1 \<and> (0::real) < 3 / 10
   \<and> (\<exists>v. analytical_callprice 100 100 150 1 (3 / 10) (2 / 25) = Inr (Some v)
           \<and> analytical_callprice (2 * 100) (2 * 100) (2 * 150) 1 (3 / 10) (2 / 25)
               = Inr (Some (2 * v)))"
  using analytical_callprice_homogeneous [of 2 100 100 150 1 "3 / 10" "2 / 25"] by simp


section \<open>Claim C1: the exponent of the fourth term\<close>

text \<open>
  The third and fourth terms of the code are the first two, taken at the mirror point
  \<open>L\<^sup>2 / S_0\<close> and multiplied by the one factor \<open>(S_0 / L) powr (1 - 2 r / sigma\<^sup>2)\<close>:
  \<open>capped_call x\<close> is the sum of the first two terms at spot \<open>x\<close>. The exponent
  \<open>1 - 2 r / sigma\<^sup>2\<close> of the code is the one with which both mirrored terms carry the
  same factor.
\<close>

lemma four_term_price_mirror:
  fixes S_0 K L T sigma r :: real
  assumes "0 < S_0" "0 < L" "0 < K"
  defines "capped_call \<equiv> \<lambda>x.
     x * (Phi (spec_delta_plus T (x / K) sigma r) - Phi (spec_delta_plus T (x / L) sigma r))
     - K * exp (- r * T)
         * (Phi (spec_delta_minus T (x / K) sigma r) - Phi (spec_delta_minus T (x / L) sigma r))"
  shows "four_term_price (1 - 2 * r / sigma\<^sup>2) S_0 K L T sigma r
    = capped_call S_0 - (S_0 / L) powr (1 - 2 * r / sigma\<^sup>2) * capped_call (L\<^sup>2 / S_0)"
proof -
  have a: "L\<^sup>2 / S_0 / K = L\<^sup>2 / (K * S_0)" "L\<^sup>2 / S_0 / L = L / S_0"
    using assms(1-3) by (simp_all add: power2_eq_square field_simps)
  have b: "(S_0 / L) powr (1 - 2 * r / sigma\<^sup>2) * (L\<^sup>2 / S_0)
      = L * (S_0 / L) powr (- 2 * r / sigma\<^sup>2)"
  proof -
    have "(S_0 / L) * (S_0 / L) powr (- 2 * r / sigma\<^sup>2)
        = (S_0 / L) powr (1 + - 2 * r / sigma\<^sup>2)"
      using assms(1,2) by (intro powr_mult_base) simp
    also have "1 + - 2 * r / sigma\<^sup>2 = 1 - 2 * r / sigma\<^sup>2"
      by simp
    finally have "(S_0 / L) powr (1 - 2 * r / sigma\<^sup>2) * (L\<^sup>2 / S_0)
        = (S_0 / L) * (S_0 / L) powr (- 2 * r / sigma\<^sup>2) * (L\<^sup>2 / S_0)"
      by simp
    also have "\<dots> = L * (S_0 / L) powr (- 2 * r / sigma\<^sup>2)"
      using assms(1,2) by (simp add: power2_eq_square)
    finally show ?thesis .
  qed
  define P where "P = (S_0 / L) powr (1 - 2 * r / sigma\<^sup>2)"
  define A3 where "A3 = Phi (spec_delta_plus T (L\<^sup>2 / (K * S_0)) sigma r)
      - Phi (spec_delta_plus T (L / S_0) sigma r)"
  define B3 where "B3 = Phi (spec_delta_minus T (L\<^sup>2 / (K * S_0)) sigma r)
      - Phi (spec_delta_minus T (L / S_0) sigma r)"
  have "P * (L\<^sup>2 / S_0 * A3 - K * exp (- r * T) * B3)
      = P * (L\<^sup>2 / S_0) * A3 - K * exp (- r * T) * P * B3"
    by (simp add: algebra_simps)
  also have "\<dots> = L * (S_0 / L) powr (- 2 * r / sigma\<^sup>2) * A3 - K * exp (- r * T) * P * B3"
    using b by (simp only: P_def)
  finally have "P * (L\<^sup>2 / S_0 * A3 - K * exp (- r * T) * B3)
      = L * (S_0 / L) powr (- 2 * r / sigma\<^sup>2) * A3 - K * exp (- r * T) * P * B3" .
  then show ?thesis
    unfolding four_term_price_def capped_call_def a
    by (simp only: P_def A3_def B3_def)
qed

lemma four_term_price_exponent_diff:
  "four_term_price q S_0 K L T sigma r - four_term_price q' S_0 K L T sigma r
    = K * exp (- r * T) * ((S_0 / L) powr q - (S_0 / L) powr q')
        * (Phi (spec_delta_minus T (L\<^sup>2 / (K * S_0)) sigma r)
            - Phi (spec_delta_minus T (L / S_0) sigma r))"
  unfolding four_term_price_def by (simp add: algebra_simps)

lemma spec_delta_minus_eq_iff:
  assumes "0 < s" "0 < s'" "0 < tau" "0 < sigma"
  shows "spec_delta_minus tau s sigma r = spec_delta_minus tau s' sigma r \<longleftrightarrow> s = s'"
  using assms by (simp add: spec_delta_minus_def)

text \<open>
  Claim C1, as amended. For \<open>S_0, K, L, T, sigma > 0\<close> the code returns the four-term
  value whose fourth term is
  \<open>K exp (- r T) (S_0 / L) powr (1 - 2 r / sigma\<^sup>2) [\<Phi>(\<delta>-(T, L\<^sup>2 / (K S_0))) - \<Phi>(\<delta>-(T, L / S_0))]\<close>:
  the exponent is \<open>1 - 2 r / sigma\<^sup>2\<close>, not \<open>- 2 r / sigma\<^sup>2 - 1\<close>.
\<close>

theorem analytical_callprice_four_terms:
  assumes "0 < S_0" "0 < K" "0 < L" "0 < T" "0 < sigma"
  shows "analytical_callprice S_0 K L T sigma r = Inr (Some (
     S_0 * (Phi (spec_delta_plus T (S_0 / K) sigma r) - Phi (spec_delta_plus T (S_0 / L) sigma r))
     - K * exp (- r * T)
         * (Phi (spec_delta_minus T (S_0 / K) sigma r) - Phi (spec_delta_minus T (S_0 / L) sigma r))
     - L * (S_0 / L) powr (- 2 * r / sigma\<^sup>2)
         * (Phi (spec_delta_plus T (L\<^sup>2 / (K * S_0)) sigma r)
            - Phi (spec_delta_plus T (L / S_0) sigma r))
     + K * exp (- r * T) * (S_0 / L) powr (1 - 2 * r / sigma\<^sup>2)
         * (Phi (spec_delta_minus T (L\<^sup>2 / (K * S_0)) sigma r)
            - Phi (spec_delta_minus T (L / S_0) sigma r))))"
  using analytical_callprice_value [OF assms] by (simp only: four_term_price_def)

theorem analytical_callprice_four_terms_witness:
  "(0::real) < 100 \<and> (0::real) < 150 \<and> (0::real) < 1 \<and> (0::real) < 3 / 10
   \<and> analytical_callprice 100 100 150 1 (3 / 10) (2 / 25) = Inr (Some (
     100 * (Phi (spec_delta_plus 1 (100 / 100) (3 / 10) (2 / 25))
            - Phi (spec_delta_plus 1 (100 / 150) (3 / 10) (2 / 25)))
     - 100 * exp (- (2 / 25) * 1)
         * (Phi (spec_delta_minus 1 (100 / 100) (3 / 10) (2 / 25))
            - Phi (spec_delta_minus 1 (100 / 150) (3 / 10) (2 / 25)))
     - 150 * (100 / 150) powr (- 2 * (2 / 25) / (3 / 10)\<^sup>2)
         * (Phi (spec_delta_plus 1 (150\<^sup>2 / (100 * 100)) (3 / 10) (2 / 25))
            - Phi (spec_delta_plus 1 (150 / 100) (3 / 10) (2 / 25)))
     + 100 * exp (- (2 / 25) * 1) * (100 / 150) powr (1 - 2 * (2 / 25) / (3 / 10)\<^sup>2)
         * (Phi (spec_delta_minus 1 (150\<^sup>2 / (100 * 100)) (3 / 10) (2 / 25))
            - Phi (spec_delta_minus 1 (150 / 100) (3 / 10) (2 / 25)))))"
proof -
  have h: "(0::real) < 100" "(0::real) < 150" "(0::real) < 1" "(0::real) < 3 / 10"
    by simp_all
  show ?thesis
    using h analytical_callprice_four_terms [OF h(1) h(1) h(2) h(3) h(4), of "2 / 25"]
    by (simp only: simp_thms)
qed

text \<open>
  At the notebook's own parameters (\<open>S_0 = K = 100\<close>, \<open>L = 150\<close>, \<open>T = 1\<close>,
  \<open>sigma = 0.3\<close>, \<open>r = 0.08\<close>) the code's value is not the value of the specification's
  formula.
\<close>

theorem spec_exponent_counterexample:
  "(0::real) < 100 \<and> (0::real) < 150 \<and> (0::real) < 1 \<and> (0::real) < 3 / 10
   \<and> analytical_callprice 100 100 150 1 (3 / 10) (2 / 25)
       \<noteq> Inr (Some (spec_price 100 100 150 1 (3 / 10) (2 / 25)))"
proof -
  let ?S = "100::real" and ?L = "150::real" and ?sg = "3 / 10 :: real" and ?r = "2 / 25 :: real"
  have "four_term_price (1 - 2 * ?r / ?sg\<^sup>2) ?S ?S ?L 1 ?sg ?r
      - four_term_price (- 2 * ?r / ?sg\<^sup>2 - 1) ?S ?S ?L 1 ?sg ?r \<noteq> 0"
  proof -
    have "(?S / ?L) powr (1 - 2 * ?r / ?sg\<^sup>2) \<noteq> (?S / ?L) powr (- 2 * ?r / ?sg\<^sup>2 - 1)"
      by (simp add: powr_inj)
    moreover have "Phi (spec_delta_minus 1 (?L\<^sup>2 / (?S * ?S)) ?sg ?r)
        \<noteq> Phi (spec_delta_minus 1 (?L / ?S) ?sg ?r)"
      by (simp add: Phi_eq_iff spec_delta_minus_eq_iff)
    ultimately show ?thesis
      unfolding four_term_price_exponent_diff by simp
  qed
  then show ?thesis
    by (simp add: analytical_callprice_value spec_price_def)
qed


section \<open>Claim C5: a barrier at or below the spot\<close>

lemma four_term_price_at_barrier:
  assumes "S_0 \<noteq> 0"
  shows "four_term_price q S_0 K S_0 T sigma r = 0"
proof -
  have a: "S_0\<^sup>2 / (K * S_0) = S_0 / K"
    using assms by (simp add: power2_eq_square)
  show ?thesis
    unfolding four_term_price_def a using assms by simp
qed

text \<open>
  Claim C5, as amended. The code has no special case for a breached barrier. For
  \<open>L = S_0\<close> (and \<open>S_0, K, T, sigma > 0\<close>) the four terms cancel and the price is exactly
  0. For \<open>L < S_0\<close> the formula is evaluated as written.
\<close>

theorem analytical_callprice_at_barrier:
  assumes "0 < S_0" "0 < K" "0 < T" "0 < sigma"
  shows "analytical_callprice S_0 K S_0 T sigma r = Inr (Some 0)"
  using assms
  by (simp add: analytical_callprice_value four_term_price_at_barrier)

theorem analytical_callprice_at_barrier_witness:
  "(0::real) < 100 \<and> (0::real) < 90 \<and> (0::real) < 1 \<and> (0::real) < 3 / 10
   \<and> analytical_callprice 100 90 100 1 (3 / 10) (2 / 25) = Inr (Some 0)"
  using analytical_callprice_at_barrier [of 100 90 1 "3 / 10" "2 / 25"] by simp

text \<open>
  Below the spot the value is not 0. At \<open>S_0 = 1\<close>, \<open>K = exp (3/2)\<close>, \<open>L = exp (- 1/2)\<close>,
  \<open>T = sigma = r = 1\<close> every argument of \<open>\<Phi>\<close> is one of \<open>0, \<plusminus>1, \<plusminus>2\<close>, and the price is
  \<open>2 ((exp (1/2) + exp (- 3/2)) G(1) - G(2)) / sqrt (2 \<pi>)\<close> with \<open>G = gauss_int\<close>, about
  \<open>0.32\<close>.
\<close>

lemma sd_plus_exp: "spec_delta_plus 1 (exp a) 1 1 = a + 3 / 2"
  by (simp add: spec_delta_plus_def)

lemma sd_minus_exp: "spec_delta_minus 1 (exp a) 1 1 = a + 1 / 2"
  by (simp add: spec_delta_minus_def)

lemma below_spot_ratios:
  "1 / exp (3 / 2 :: real) = exp (- (3 / 2))"
  "1 / exp (- (1 / 2) :: real) = exp (1 / 2)"
  "(exp (- (1 / 2) :: real))\<^sup>2 / (exp (3 / 2) * 1) = exp (- (5 / 2))"
  "exp (- (1 / 2) :: real) / 1 = exp (- (1 / 2))"
proof -
  show "1 / exp (3 / 2 :: real) = exp (- (3 / 2))" by (simp add: exp_minus')
  show "1 / exp (- (1 / 2) :: real) = exp (1 / 2)" by (simp add: exp_minus')
  have "(exp (- (1 / 2) :: real))\<^sup>2 = exp (- 1)"
    using exp_double [of "- (1 / 2) :: real"] by simp
  then have "(exp (- (1 / 2) :: real))\<^sup>2 / (exp (3 / 2) * 1) = exp (- 1 - 3 / 2)"
    by (simp only: exp_diff mult_1_right)
  then show "(exp (- (1 / 2) :: real))\<^sup>2 / (exp (3 / 2) * 1) = exp (- (5 / 2))" by simp
  show "exp (- (1 / 2) :: real) / 1 = exp (- (1 / 2))" by simp
qed

lemma below_spot_coeffs:
  "exp (3 / 2 :: real) * exp (- 1 * 1) = exp (1 / 2)"
  "exp (- (1 / 2) :: real) * exp (1 / 2) powr (- 2 * 1 / 1\<^sup>2) = exp (- (3 / 2))"
  "exp (3 / 2 :: real) * exp (- 1 * 1) * exp (1 / 2) powr (1 - 2 * 1 / 1\<^sup>2) = 1"
proof -
  show a: "exp (3 / 2 :: real) * exp (- 1 * 1) = exp (1 / 2)"
    by (simp flip: exp_add)
  have p: "exp (1 / 2 :: real) powr (- 2 * 1 / 1\<^sup>2) = exp (- 1)"
    by (simp add: powr_def)
  show "exp (- (1 / 2) :: real) * exp (1 / 2) powr (- 2 * 1 / 1\<^sup>2) = exp (- (3 / 2))"
    unfolding p by (simp flip: exp_add)
  have q: "exp (1 / 2 :: real) powr (1 - 2 * 1 / 1\<^sup>2) = exp (- (1 / 2))"
    by (simp add: powr_def)
  show "exp (3 / 2 :: real) * exp (- 1 * 1) * exp (1 / 2) powr (1 - 2 * 1 / 1\<^sup>2) = 1"
    unfolding a q by (simp flip: exp_add)
qed

lemma four_brackets_sum:
  fixes a b c e1 e3 :: real
  shows "1 * ((0 - b) / c) - e1 * ((- a - a) / c) - e3 * ((- a - a) / c) + 1 * ((- b - 0) / c)
    = 2 * ((e1 + e3) * a - b) / c"
  by (cases "c = 0") (simp_all add: field_simps)

lemma below_spot_price:
  "four_term_price (1 - 2 * 1 / 1\<^sup>2) 1 (exp (3 / 2)) (exp (- (1 / 2))) 1 1 1
    = 2 * ((exp (1 / 2) + exp (- (3 / 2))) * gauss_int 1 - gauss_int 2) / sqrt (2 * pi)"
proof -
  have "four_term_price (1 - 2 * 1 / 1\<^sup>2) 1 (exp (3 / 2)) (exp (- (1 / 2))) 1 1 1
      = 1 * (Phi 0 - Phi 2) - exp (1 / 2) * (Phi (- 1) - Phi 1)
        - exp (- (3 / 2)) * (Phi (- 1) - Phi 1) + 1 * (Phi (- 2) - Phi 0)"
    unfolding four_term_price_def below_spot_ratios sd_plus_exp sd_minus_exp below_spot_coeffs
    by simp
  also have "\<dots> = 2 * ((exp (1 / 2) + exp (- (3 / 2))) * gauss_int 1 - gauss_int 2) / sqrt (2 * pi)"
    unfolding Phi_diff gauss_int_minus gauss_int_0
    by (rule four_brackets_sum)
  finally show ?thesis .
qed

lemma exp_half_bounds: "13 / 8 \<le> exp (1 / 2 :: real)" "exp (1 / 2 :: real) \<le> 7 / 4"
proof -
  show "13 / 8 \<le> exp (1 / 2 :: real)"
    using exp_lower_Taylor_quadratic [of "1 / 2 :: real"] by (simp add: power2_eq_square)
  show "exp (1 / 2 :: real) \<le> 7 / 4"
    using exp_bound [of "1 / 2 :: real"] by (simp add: power2_eq_square)
qed

lemma below_spot_positive:
  "0 < (exp (1 / 2) + exp (- (3 / 2))) * gauss_int 1 - gauss_int 2"
proof -
  define x :: real where "x = exp (1 / 2)"
  define y :: real where "y = exp (- (1 / 2))"
  define z :: real where "z = exp (- (3 / 2))"
  have x: "13 / 8 \<le> x" "x \<le> 7 / 4"
    using exp_half_bounds by (simp_all add: x_def)
  have yx: "y = 1 / x" by (simp add: x_def y_def exp_minus')
  have y: "y \<le> 8 / 13"
  proof -
    have "1 / x \<le> 1 / (13 / 8)"
      using x by (intro divide_left_mono) simp_all
    then show ?thesis by (simp add: yx)
  qed
  have z: "64 / 343 \<le> z"
  proof -
    have "1 / (7 / 4) \<le> 1 / x"
      using x by (intro divide_left_mono) simp_all
    then have "4 / 7 \<le> y" by (simp add: yx)
    then have "(4 / 7) ^ 3 \<le> y ^ 3"
      by (intro power_mono) simp_all
    moreover have "y ^ 3 = z"
      using exp_of_nat_mult [of 3 "- (1 / 2) :: real"] by (simp add: y_def z_def)
    ultimately show ?thesis by (simp add: power3_eq_cube)
  qed
  have g1: "5 / 6 \<le> gauss_int 1" by (rule gauss_int_1_lower)
  have g2: "gauss_int 2 \<le> gauss_int 1 + y - z"
    using gauss_int_2_upper by (simp add: y_def z_def)
  have "0 \<le> x + z - 1" using x z by simp
  then have "(x + z - 1) * (5 / 6) \<le> (x + z - 1) * gauss_int 1"
    using g1 by (rule mult_left_mono [rotated])
  then have "(x + z - 1) * (5 / 6) - y + z \<le> (x + z) * gauss_int 1 - gauss_int 2"
    using g2 by (simp add: algebra_simps)
  moreover have "0 < (x + z - 1) * (5 / 6) - y + z"
  proof -
    have "(x + z - 1) * (5 / 6) = 5 / 6 * x + 5 / 6 * z - 5 / 6"
      by (simp add: field_simps)
    then show ?thesis using x y z by linarith
  qed
  ultimately show ?thesis
    by (simp add: x_def z_def)
qed

theorem barrier_below_spot_counterexample:
  "(0::real) < 1 \<and> (0::real) < exp (3 / 2) \<and> (0::real) < exp (- (1 / 2))
   \<and> exp (- (1 / 2)) \<le> (1::real)
   \<and> analytical_callprice 1 (exp (3 / 2)) (exp (- (1 / 2))) 1 1 1 \<noteq> Inr (Some 0)"
proof -
  have "0 < four_term_price (1 - 2 * 1 / 1\<^sup>2) 1 (exp (3 / 2)) (exp (- (1 / 2))) 1 1 1"
    unfolding below_spot_price using below_spot_positive by simp
  then have "analytical_callprice 1 (exp (3 / 2)) (exp (- (1 / 2))) 1 1 1 \<noteq> Inr (Some 0)"
    by (simp add: analytical_callprice_value)
  then show ?thesis by simp
qed


section \<open>Claim C2: the payoff of each simulated path\<close>

lemma amax_Max: "xs \<noteq> [] \<Longrightarrow> amax xs = Max (set xs)"
proof (cases xs)
  case Nil
  assume "xs \<noteq> []"
  with Nil show ?thesis by simp
next
  case (Cons a list)
  show ?thesis
    unfolding Cons amax.simps by (rule Max.set_eq_fold [symmetric])
qed

lemma set_map2_nth:
  assumes "length xs = length ys"
  shows "set (map2 f xs ys) = (\<lambda>j. f (xs ! j) (ys ! j)) ` {..<length xs}"
proof -
  have "set (map2 f xs ys) = (\<lambda>j. map2 f xs ys ! j) ` {..<length (map2 f xs ys)}"
    by (simp only: set_conv_nth image_def lessThan_iff) blast
  also have "\<dots> = (\<lambda>j. f (xs ! j) (ys ! j)) ` {..<length xs}"
    using assms by (intro image_cong) simp_all
  finally show ?thesis .
qed

lemma last_map2:
  assumes "length xs = length ys" "xs \<noteq> []"
  shows "last (map2 f xs ys) = f (xs ! (length xs - 1)) (ys ! (length xs - 1))"
proof -
  have "map2 f xs ys \<noteq> []" using assms by (cases xs; cases ys) simp_all
  then have "last (map2 f xs ys) = map2 f xs ys ! (length (map2 f xs ys) - 1)"
    by (rule last_conv_nth)
  also have "\<dots> = f (xs ! (length xs - 1)) (ys ! (length xs - 1))"
    using assms by (cases xs) simp_all
  finally show ?thesis .
qed

lemma option_payoff_matching:
  assumes "wf_array2 Z" "ncols Z = length t" "1 \<le> length t"
  shows "option_payoff S_0 r sigma Z t L
    = Inr (map (\<lambda>row.
        last (map2 (gbm_price S_0 r sigma) t row)
          * (if amax (map2 (gbm_price S_0 r sigma) t row) < L then 1 else 0)) (rows Z))"
proof -
  have st: "stretch (length t) t = t" by (simp add: stretch_def)
  have sr: "stretch (length t) row = row" if "row \<in> set (rows Z)" for row
    using assms(1,2) that by (simp add: wf_array2_def list_all_iff stretch_def)
  have t: "t \<noteq> []" using assms(3) by auto
  show ?thesis
    using assms(2) t
    by (simp add: option_payoff_def broadcast_cols_def sr st Let_def map2_map_map comp_def
        zip_same_conv_map cong: map_cong)
qed

text \<open>
  Claim C2. Let \<open>Z\<close> have \<open>N \<ge> 1\<close> rows and as many columns as the grid \<open>t\<close> has
  instants, \<open>m \<ge> 1\<close> of them, none negative. Then \<^verbatim>\<open>option_payoff\<close> returns \<open>N\<close> values,
  and the value of path \<open>i\<close> is its price at the last instant if the maximum of its
  prices over all \<open>m\<close> instants is strictly below \<open>L\<close>, and 0 otherwise, the price at
  instant \<open>j\<close> being \<open>S_0 exp ((r - sigma\<^sup>2 / 2) t\<^sub>j + sigma sqrt t\<^sub>j Z\<^sub>i\<^sub>j)\<close>: the absolute
  time and a single draw, no sum of increments.
\<close>

theorem option_payoff_pathwise:
  assumes "wf_array2 Z" "ncols Z = length t" "1 \<le> length t" "1 \<le> length (rows Z)"
    and "list_all (\<lambda>x. 0 \<le> x) t"
  shows "\<exists>out. option_payoff S_0 r sigma Z t L = Inr out
     \<and> length out = length (rows Z)
     \<and> (\<forall>i < length (rows Z). out ! i =
          (if Max ((\<lambda>j. S_0 * exp ((r - sigma\<^sup>2 / 2) * t ! j
                                    + sigma * sqrt (t ! j) * rows Z ! i ! j)) ` {..<length t}) < L
           then S_0 * exp ((r - sigma\<^sup>2 / 2) * t ! (length t - 1)
                           + sigma * sqrt (t ! (length t - 1)) * rows Z ! i ! (length t - 1))
           else 0))"
proof -
  let ?f = "gbm_price S_0 r sigma"
  let ?out = "map (\<lambda>row. last (map2 ?f t row) * (if amax (map2 ?f t row) < L then 1 else 0))
      (rows Z)"
  have t: "t \<noteq> []" using assms(3) by auto
  have "?out ! i =
      (if Max ((\<lambda>j. ?f (t ! j) (rows Z ! i ! j)) ` {..<length t}) < L
       then ?f (t ! (length t - 1)) (rows Z ! i ! (length t - 1)) else 0)"
    if i: "i < length (rows Z)" for i
  proof -
    let ?row = "rows Z ! i"
    have len: "length t = length ?row"
      using assms(1,2) i by (simp add: wf_array2_def list_all_length)
    have ne: "map2 ?f t ?row \<noteq> []"
      using t len by (cases t; cases ?row) simp_all
    have "amax (map2 ?f t ?row) = Max ((\<lambda>j. ?f (t ! j) (?row ! j)) ` {..<length t})"
      by (simp only: amax_Max [OF ne] set_map2_nth [OF len])
    moreover have "last (map2 ?f t ?row) = ?f (t ! (length t - 1)) (?row ! (length t - 1))"
      by (rule last_map2 [OF len t])
    ultimately show ?thesis using i by simp
  qed
  then show ?thesis
    unfolding option_payoff_matching [OF assms(1-3)] gbm_price_def by simp
qed

theorem option_payoff_pathwise_witness:
  "wf_array2 two_paths \<and> ncols two_paths = length [1 / 12, 1 / 6 :: real]
   \<and> 1 \<le> length [1 / 12, 1 / 6 :: real] \<and> 1 \<le> length (rows two_paths)
   \<and> list_all (\<lambda>x. 0 \<le> x) [1 / 12, 1 / 6 :: real]
   \<and> (\<exists>out. option_payoff 100 (2 / 25) (3 / 10) two_paths [1 / 12, 1 / 6] 150 = Inr out
     \<and> length out = length (rows two_paths)
     \<and> (\<forall>i < length (rows two_paths). out ! i =
          (if Max ((\<lambda>j. 100 * exp ((2 / 25 - (3 / 10)\<^sup>2 / 2) * [1 / 12, 1 / 6] ! j
                       + 3 / 10 * sqrt ([1 / 12, 1 / 6] ! j) * rows two_paths ! i ! j))
                     ` {..<length [1 / 12, 1 / 6 :: real]}) < 150
           then 100 * exp ((2 / 25 - (3 / 10)\<^sup>2 / 2)
                             * [1 / 12, 1 / 6] ! (length [1 / 12, 1 / 6 :: real] - 1)
                           + 3 / 10 * sqrt ([1 / 12, 1 / 6] ! (length [1 / 12, 1 / 6 :: real] - 1))
                             * rows two_paths ! i ! (length [1 / 12, 1 / 6 :: real] - 1))
           else 0)))"
proof -
  have h: "wf_array2 two_paths" "ncols two_paths = length [1 / 12, 1 / 6 :: real]"
    "1 \<le> length [1 / 12, 1 / 6 :: real]" "1 \<le> length (rows two_paths)"
    "list_all (\<lambda>x. 0 \<le> x) [1 / 12, 1 / 6 :: real]"
    by (simp_all add: two_paths_def wf_array2_def)
  show ?thesis
    using h option_payoff_pathwise [OF h, of 100 "2 / 25" "3 / 10" 150]
    by (intro conjI)
qed


section \<open>Claim C4: the reduction to a mean and a standard error\<close>

lemma np_mean_average: "xs \<noteq> [] \<Longrightarrow> np_mean xs = Some (average xs)"
  by (simp add: np_mean_def average_def)

lemma np_std_value:
  assumes "xs \<noteq> []"
  shows "np_std xs
    = Some (sqrt (sum_list (map (\<lambda>x. (x - average xs)\<^sup>2) xs) / real (length xs)))"
  using assms by (simp add: np_std_def np_mean_def average_def)

lemma population_vs_sample_std:
  assumes "2 \<le> length xs"
  shows "sqrt (sum_list (map (\<lambda>x. (x - average xs)\<^sup>2) xs) / real (length xs))
    = sqrt (real (length xs - 1) / real (length xs)) * sample_std xs"
proof -
  let ?ss = "sum_list (map (\<lambda>x. (x - average xs)\<^sup>2) xs)"
  have n: "real (length xs) - 1 = real (length xs - 1)" "0 < real (length xs - 1)"
    using assms by (simp_all add: of_nat_diff)
  have "sqrt (real (length xs - 1) / real (length xs)) * sample_std xs
      = sqrt (real (length xs - 1) / real (length xs) * (?ss / real (length xs - 1)))"
    by (simp only: sample_std_def n(1) real_sqrt_mult)
  also have "real (length xs - 1) / real (length xs) * (?ss / real (length xs - 1))
      = ?ss / real (length xs)"
    using n(2) by simp
  finally show ?thesis by simp
qed

text \<open>
  Claim C4, as amended. For loop index \<open>i \<ge> 1\<close> and \<open>N = 1000 i\<close> discounted payoffs, the
  estimator stores their average and, as standard error, their population standard
  deviation (\<^verbatim>\<open>np.std\<close>, divisor \<open>N\<close>) divided by \<open>sqrt N\<close>. The population standard
  deviation is \<open>sqrt ((N - 1) / N)\<close> times the sample standard deviation.
\<close>

theorem mc_reduce_population_std:
  assumes "0 < i" "length call_val = i * 1000"
  shows "mc_reduce i call_val =
     (Some (average call_val),
      Some (sqrt (sum_list (map (\<lambda>x. (x - average call_val)\<^sup>2) call_val)
                    / real (length call_val))
            / sqrt (real (length call_val))))
     \<and> sqrt (sum_list (map (\<lambda>x. (x - average call_val)\<^sup>2) call_val) / real (length call_val))
         = sqrt (real (length call_val - 1) / real (length call_val)) * sample_std call_val"
proof -
  have ne: "call_val \<noteq> []" using assms by auto
  have two: "2 \<le> length call_val" using assms by simp
  show ?thesis
    using assms(2) population_vs_sample_std [OF two]
    by (simp add: mc_reduce_def np_mean_average [OF ne] np_std_value [OF ne])
qed

lemma half_paid_facts:
  "length half_paid = 1000" "average half_paid = 1"
  "sum_list (map (\<lambda>x. (x - 1)\<^sup>2) half_paid) = 1000"
  by (simp_all add: half_paid_def average_def sum_list_replicate)

theorem mc_reduce_population_std_witness:
  "(0::nat) < 1 \<and> length half_paid = 1 * 1000
   \<and> mc_reduce 1 half_paid = (Some 1, Some (1 / sqrt 1000))
   \<and> (1::real) = sqrt (999 / 1000) * sample_std half_paid"
proof -
  have h: "(0::nat) < 1" "length half_paid = 1 * 1000"
    by (simp_all add: half_paid_facts)
  show ?thesis
    using h mc_reduce_population_std [OF h]
    by (simp add: half_paid_facts)
qed

text \<open>
  On a thousand payoffs, half 0 and half 2, the code's standard error is \<open>1 / sqrt 1000\<close>;
  the specification's is \<open>1 / sqrt 999\<close>.
\<close>

theorem sample_std_counterexample:
  "2 \<le> length half_paid \<and> length half_paid = 1 * 1000
   \<and> snd (mc_reduce 1 half_paid) = Some (1 / sqrt 1000)
   \<and> spec_std_error half_paid = 1 / sqrt 999
   \<and> snd (mc_reduce 1 half_paid) \<noteq> Some (spec_std_error half_paid)"
proof -
  have ne: "half_paid \<noteq> []" by (simp add: half_paid_def)
  have a: "snd (mc_reduce 1 half_paid) = Some (1 / sqrt 1000)"
    by (simp add: mc_reduce_def np_std_value [OF ne] half_paid_facts)
  have "sample_std half_paid = sqrt (1000 / 999)"
    by (simp add: sample_std_def half_paid_facts)
  then have b: "spec_std_error half_paid = 1 / sqrt 999"
    by (simp add: spec_std_error_def half_paid_facts real_sqrt_divide)
  have "sqrt 1000 \<noteq> sqrt (999::real)" by simp
  then show ?thesis
    unfolding a b by (simp add: half_paid_facts)
qed


section \<open>Claim C8: the seed determines the estimates\<close>

lemma same_outcome_bindE:
  assumes "same_outcome R x y"
    and "\<And>a g h. R g h \<Longrightarrow> same_outcome R (f (a, g)) (f' (a, h))"
  shows "same_outcome R (bindE x f) (bindE y f')"
  using assms by (cases "(R, x, y)" rule: same_outcome.cases) auto

lemma same_outcome_values:
  "same_outcome R x y \<Longrightarrow> map_sum id fst x = map_sum id fst y"
  by (cases "(R, x, y)" rule: same_outcome.cases) auto

lemma draws_related:
  assumes step: "\<And>g h. R g h \<Longrightarrow> fst (draw g) = fst (draw' h) \<and> R (snd (draw g)) (snd (draw' h))"
  shows "R g h \<Longrightarrow> fst (draws draw n g) = fst (draws draw' n h)
     \<and> R (snd (draws draw n g)) (snd (draws draw' n h))"
proof (induction n arbitrary: g h)
  case 0
  then show ?case by simp
next
  case (Suc n)
  from step [OF Suc.prems]
  have a: "fst (draw g) = fst (draw' h)" and b: "R (snd (draw g)) (snd (draw' h))"
    by simp_all
  from Suc.IH [OF b] a show ?case
    by (simp add: split_beta)
qed

lemma draw_rows_related:
  assumes step: "\<And>g h. R g h \<Longrightarrow> fst (draw g) = fst (draw' h) \<and> R (snd (draw g)) (snd (draw' h))"
  shows "R g h \<Longrightarrow> fst (draw_rows draw n m g) = fst (draw_rows draw' n m h)
     \<and> R (snd (draw_rows draw n m g)) (snd (draw_rows draw' n m h))"
proof (induction n arbitrary: g h)
  case 0
  then show ?case by simp
next
  case (Suc n)
  from draws_related [of R draw draw', OF step Suc.prems, of m]
  have a: "fst (draws draw m g) = fst (draws draw' m h)"
    and b: "R (snd (draws draw m g)) (snd (draws draw' m h))"
    by simp_all
  from Suc.IH [OF b] a show ?case
    by (simp add: split_beta)
qed

lemma norm_rvs_related:
  assumes step: "\<And>g h. R g h \<Longrightarrow> fst (draw g) = fst (draw' h) \<and> R (snd (draw g)) (snd (draw' h))"
    and "R g h"
  shows "same_outcome R (norm_rvs draw n m g) (norm_rvs draw' n m h)"
  using draw_rows_related [of R draw draw', OF step assms(2), of n "nat m"]
  by (simp add: norm_rvs_def split_beta)

lemma mc_trial_related:
  assumes step: "\<And>g h. R g h \<Longrightarrow> fst (draw g) = fst (draw' h) \<and> R (snd (draw g)) (snd (draw' h))"
    and "R g h"
  shows "same_outcome R (mc_trial draw S_0 r sigma K T L i g) (mc_trial draw' S_0 r sigma K T L i h)"
  unfolding mc_trial_def Let_def
proof (rule same_outcome_bindE [OF norm_rvs_related [of R draw draw', OF step assms(2)]])
  fix Z g1 h1
  assume "R g1 h1"
  then show "same_outcome R
      (case (Z, g1) of (Z_s, g') \<Rightarrow>
        bindE (option_payoff S_0 r sigma Z_s (time_grid T) L)
          (\<lambda>S_T. Inr (mc_reduce i (discounted_call_payoff S_T K r T), g')))
      (case (Z, h1) of (Z_s, g') \<Rightarrow>
        bindE (option_payoff S_0 r sigma Z_s (time_grid T) L)
          (\<lambda>S_T. Inr (mc_reduce i (discounted_call_payoff S_T K r T), g')))"
    by (cases "option_payoff S_0 r sigma Z (time_grid T) L") simp_all
qed

lemma sweep_related:
  assumes step: "\<And>g h. R g h \<Longrightarrow> fst (draw g) = fst (draw' h) \<and> R (snd (draw g)) (snd (draw' h))"
  shows "R g h \<Longrightarrow>
    same_outcome R (sweep draw S_0 r sigma K T L is g) (sweep draw' S_0 r sigma K T L is h)"
proof (induction "is" arbitrary: g h)
  case Nil
  then show ?case by simp
next
  case (Cons i "is")
  show ?case
    unfolding sweep.simps
  proof (rule same_outcome_bindE [OF mc_trial_related [of R draw draw', OF step Cons.prems]])
    fix e g1 h1
    assume r1: "R g1 h1"
    show "same_outcome R
        (case (e, g1) of (e, g1) \<Rightarrow>
          bindE (sweep draw S_0 r sigma K T L is g1) (\<lambda>(es, g2). Inr (e # es, g2)))
        (case (e, h1) of (e, g1) \<Rightarrow>
          bindE (sweep draw' S_0 r sigma K T L is g1) (\<lambda>(es, g2). Inr (e # es, g2)))"
      unfolding prod.case
      by (rule same_outcome_bindE [OF Cons.IH [OF r1]]) simp
  qed
qed

text \<open>
  Claim C8. The cell seeds the generator before it draws. So two runs with the same
  inputs and the same seed return the same estimates and leave the generator in the same
  state, whatever states \<open>g0\<close> and \<open>g1\<close> the generator was in before. The draws are the
  only other input: two generators, even of different kinds, that are related after
  seeding and, from related states, give the same variate and related next states, make
  the cell raise the same exception or return the same estimates.
\<close>

theorem monte_carlo_reproducible:
  assumes "R (mk seed) (mk' seed)"
    and "\<And>g h. R g h \<Longrightarrow> fst (draw g) = fst (draw' h) \<and> R (snd (draw g)) (snd (draw' h))"
  shows "monte_carlo mk draw seed S_0 r sigma K T L g0
       = monte_carlo mk draw seed S_0 r sigma K T L g1
     \<and> map_sum id fst (monte_carlo mk draw seed S_0 r sigma K T L g0)
       = map_sum id fst (monte_carlo mk' draw' seed S_0 r sigma K T L h0)"
proof
  show "monte_carlo mk draw seed S_0 r sigma K T L g0
      = monte_carlo mk draw seed S_0 r sigma K T L g1"
    by (simp add: monte_carlo_def np_random_seed_def)
  have "same_outcome R (monte_carlo mk draw seed S_0 r sigma K T L g0)
      (monte_carlo mk' draw' seed S_0 r sigma K T L h0)"
    unfolding monte_carlo_def np_random_seed_def
    by (rule sweep_related [of R draw draw', OF assms(2) assms(1)])
  then show "map_sum id fst (monte_carlo mk draw seed S_0 r sigma K T L g0)
      = map_sum id fst (monte_carlo mk' draw' seed S_0 r sigma K T L h0)"
    by (rule same_outcome_values)
qed

theorem monte_carlo_reproducible_witness:
  "monte_carlo (\<lambda>s. s) counter_draw 0 100 (2 / 25) (3 / 10) 100 1 150 7
     = monte_carlo (\<lambda>s. s) counter_draw 0 100 (2 / 25) (3 / 10) 100 1 150 8
   \<and> map_sum id fst (monte_carlo (\<lambda>s. s) counter_draw 0 100 (2 / 25) (3 / 10) 100 1 150 7)
     = map_sum id fst
         (monte_carlo (\<lambda>s. (s, False)) tagged_draw 0 100 (2 / 25) (3 / 10) 100 1 150 (5, True))"
proof (rule monte_carlo_reproducible [where R = "\<lambda>g h. g = fst h"])
  show "(0::nat) = fst (0::nat, False)" by simp
next
  fix g :: nat and h :: "nat \<times> bool"
  assume "g = fst h"
  then show "fst (counter_draw g) = fst (tagged_draw h)
      \<and> snd (counter_draw g) = fst (snd (tagged_draw h))"
    by (simp add: counter_draw_def tagged_draw_def)
qed


section \<open>The length of the schedule in double precision\<close>

text \<open>
  Rounding to a double moves a positive number by at most the fraction \<open>2\<^sup>-\<^sup>5\<^sup>3\<close> of itself.
\<close>

lemma floor_log2:
  assumes "0 < x" "2 powi e \<le> x" "x < 2 powi (e + 1)"
  shows "\<lfloor>log 2 x\<rfloor> = e"
proof (rule floor_unique)
  have a: "(2::real) powr real_of_int e = 2 powi e"
    by (rule powr_real_of_int') simp_all
  have b: "(2::real) powr (real_of_int e + 1) = 2 powi (e + 1)"
    using powr_real_of_int' [of "2::real" "e + 1"] by simp
  show "real_of_int e \<le> log 2 x"
    using assms(1,2) by (simp add: le_log_iff a)
  show "log 2 x < real_of_int e + 1"
    using assms(1,3) by (simp add: log_less_iff b)
qed

lemma fl64_at:
  assumes "2 powi e \<le> \<bar>x\<bar>" "\<bar>x\<bar> < 2 powi (e + 1)"
  shows "fl64 x = 2 powi (e - 52) * of_int (rte (x / 2 powi (e - 52)))"
proof -
  have "0 < (2::real) powi e" by simp
  then have x: "0 < \<bar>x\<bar>" using assms(1) by linarith
  then have "x \<noteq> 0" by auto
  then show ?thesis
    by (simp add: fl64_def floor_log2 [OF x assms])
qed







text \<open>
  The length at one, two and twelve months. \<^verbatim>\<open>1/12\<close> is the double
  \<open>6004799503160661 / 2\<^sup>5\<^sup>6\<close>. At twelve months the difference rounds to \<open>1 - 2\<^sup>-\<^sup>5\<^sup>3\<close>
  and the quotient to 12; at two months the difference \<^verbatim>\<open>3/12 - 1/12\<close> is a tie that
  rounds up, the quotient is \<open>2 + 2\<^sup>-\<^sup>5\<^sup>1\<close>, and its ceiling is 3.
\<close>

lemma rte_near:
  assumes "\<bar>y - of_int k\<bar> < 1 / 2"
  shows "rte y = k"
proof (cases "of_int k \<le> y")
  case True
  moreover have "y < of_int k + 1" using assms by linarith
  ultimately have "\<lfloor>y\<rfloor> = k" by (rule floor_unique)
  then show ?thesis using assms True by (simp add: rte_def)
next
  case False
  have "of_int k - 1 \<le> y" "y < of_int k" using assms False by linarith+
  then have "of_int (k - 1) \<le> y" "y < of_int (k - 1) + 1" by simp_all
  then have f: "\<lfloor>y\<rfloor> = k - 1" by (rule floor_unique)
  have "1 / 2 < y - (of_int k - 1)" using assms by linarith
  then have "1 / 2 < y - of_int (k - 1)" by simp
  then show ?thesis
    unfolding rte_def f by simp
qed

lemma rte_tie:
  assumes "y = of_int k + 1 / 2"
  shows "rte y = (if even k then k else k + 1)"
proof -
  have "\<lfloor>y\<rfloor> = k" unfolding assms by (intro floor_unique) simp_all
  then show ?thesis by (simp add: rte_def assms)
qed

lemma fl64_near:
  assumes "1 / w \<le> \<bar>x\<bar>" "\<bar>x\<bar> < 2 / w" "2 powi e = 1 / w" "2 powi (e - 52) = 1 / u"
    and "0 < u" "\<bar>x * u - of_int k\<bar> < 1 / 2"
  shows "fl64 x = of_int k / u"
proof -
  have "2 powi (e + 1) = 2 / w"
    using assms(3) by (simp add: power_int_add)
  then have "fl64 x = 2 powi (e - 52) * of_int (rte (x / 2 powi (e - 52)))"
    using assms(1,2,3) by (intro fl64_at) simp_all
  also have "x / 2 powi (e - 52) = x * u"
    using assms(4,5) by simp
  also have "rte (x * u) = k" by (rule rte_near [OF assms(6)])
  finally show ?thesis by (simp add: assms(4))
qed

lemma fl64_tie:
  assumes "1 / w \<le> \<bar>x\<bar>" "\<bar>x\<bar> < 2 / w" "2 powi e = 1 / w" "2 powi (e - 52) = 1 / u"
    and "0 < u" "x * u = of_int k + 1 / 2"
  shows "fl64 x = of_int (if even k then k else k + 1) / u"
proof -
  have "2 powi (e + 1) = 2 / w"
    using assms(3) by (simp add: power_int_add)
  then have "fl64 x = 2 powi (e - 52) * of_int (rte (x / 2 powi (e - 52)))"
    using assms(1,2,3) by (intro fl64_at) simp_all
  also have "x / 2 powi (e - 52) = x * u"
    using assms(4,5) by simp
  also have "rte (x * u) = (if even k then k else k + 1)" by (rule rte_tie [OF assms(6)])
  finally show ?thesis by (simp add: assms(4))
qed

lemma fl64_twelfth: "fl64 (1 / 12) = 6004799503160661 / 72057594037927936"
  using fl64_near [of 16 "1 / 12" "- 4" 72057594037927936 6004799503160661]
  by (simp add: power_int_minus)

lemma fl64_13_twelfths: "fl64 (13 / 12) = 4878899596318037 / 4503599627370496"
  using fl64_near [of 1 "13 / 12" 0 4503599627370496 4878899596318037]
  by (simp add: power_int_minus)


lemma fl64_quarter: "fl64 (3 / 12) = 1 / 4"
  using fl64_near [of 4 "3 / 12" "- 2" 18014398509481984 4503599627370496]
  by (simp add: power_int_minus)

lemma arange_len_12: "arange_len (1 / 12) ((12 + 1) / 12) (1 / 12) = 12"
proof -
  have s: "((12::real) + 1) / 12 = 13 / 12" by simp
  have d: "fl64 (4878899596318037 / 4503599627370496 - 6004799503160661 / 72057594037927936)
      = 9007199254740991 / 9007199254740992"
    using fl64_near [of 2 "4878899596318037 / 4503599627370496 - 6004799503160661 / 72057594037927936"
        "- 1" 9007199254740992 9007199254740991]
    by (simp add: power_int_minus)
  have q: "fl64 (9007199254740991 / 9007199254740992 / (6004799503160661 / 72057594037927936)) = 12"
    using fl64_near [of "1 / 8"
        "9007199254740991 / 9007199254740992 / (6004799503160661 / 72057594037927936)"
        3 562949953421312 6755399441055744]
    by (simp add: power_int_minus)
  have "arange_len (1 / 12) ((12 + 1) / 12) (1 / 12) = nat \<lceil>12 :: real\<rceil>"
    by (simp only: arange_len_def s fl64_twelfth fl64_13_twelfths d q)
  then show ?thesis by simp
qed


lemma arange_len_2: "arange_len (1 / 12) ((2 + 1) / 12) (1 / 12) = 3"
proof -
  have s: "((2::real) + 1) / 12 = 3 / 12" by simp
  have d: "fl64 (1 / 4 - 6004799503160661 / 72057594037927936)
      = 6004799503160662 / 36028797018963968"
    using fl64_tie [of 8 "1 / 4 - 6004799503160661 / 72057594037927936"
        "- 3" 36028797018963968 6004799503160661]
    by (simp add: power_int_minus)
  have q: "fl64 (6004799503160662 / 36028797018963968 / (6004799503160661 / 72057594037927936))
      = 4503599627370497 / 2251799813685248"
    using fl64_near [of "1 / 2"
        "6004799503160662 / 36028797018963968 / (6004799503160661 / 72057594037927936)"
        1 2251799813685248 4503599627370497]
    by (simp add: power_int_minus)
  have c: "\<lceil>4503599627370497 / 2251799813685248 :: real\<rceil> = 3"
    by (simp add: ceiling_unique)
  have "arange_len (1 / 12) ((2 + 1) / 12) (1 / 12) = nat 3"
    by (simp only: arange_len_def s fl64_twelfth fl64_quarter d q c)
  then show ?thesis by simp
qed


section \<open>Claim C3: the monitoring schedule\<close>

lemma months_pos: "0 < T \<Longrightarrow> months T = \<lfloor>T * 12\<rfloor>"
  by (simp add: months_def py_int_def)

lemma time_grid_length:
  "length (time_grid T) = arange_len (1 / 12) ((real_of_int (months T) + 1) / 12) (1 / 12)"
  by (simp add: time_grid_def np_arange_def)







text \<open>At \<open>T = 1\<close> the schedule has twelve instants.\<close>

lemma time_grid_year: "months 1 = 12" "length (time_grid 1) = 12"
proof -
  show m: "months 1 = 12" by (simp add: months_pos)
  show "length (time_grid 1) = 12"
    using arange_len_12 by (simp add: time_grid_length m)
qed



text \<open>At \<open>T = 1/6\<close>, two months, the schedule has three instants.\<close>

lemma time_grid_two_months: "months (1 / 6) = 2" "length (time_grid (1 / 6)) = 3"
proof -
  show m: "months (1 / 6) = 2" by (simp add: months_pos)
  show "length (time_grid (1 / 6)) = 3"
    using arange_len_2 by (simp add: time_grid_length m)
qed


section \<open>Claim C7: payoffs and means are not negative\<close>

text \<open>\<^verbatim>\<open>option_payoff\<close> by the outcome of the broadcast.\<close>

lemma option_payoff_cases:
  "option_payoff S_0 r sigma Z t L =
     (case broadcast_cols (length t) (ncols Z) of
        Inl e \<Rightarrow> Inl ValueError
      | Inr w \<Rightarrow> if w = 0 then Inl ValueError
          else Inr (map2 (\<lambda>sT sm. sT * (if sm < L then 1 else 0))
            (map last (map (\<lambda>row. map2 (gbm_price S_0 r sigma) (stretch w t) (stretch w row)) (rows Z)))
            (map amax (map (\<lambda>row. map2 (gbm_price S_0 r sigma) (stretch w t) (stretch w row)) (rows Z)))))"
  by (simp add: option_payoff_def broadcast_cols_def Let_def)

lemma option_payoff_outcome:
  "option_payoff S_0 r sigma Z t L = Inl ValueError
   \<or> (\<exists>out. option_payoff S_0 r sigma Z t L = Inr out \<and> length out = length (rows Z))"
  unfolding option_payoff_cases by (simp split: sum.split)

lemma draws_length: "draws draw n g = (zs, g') \<Longrightarrow> length zs = n"
  by (induction n arbitrary: g zs g') (auto split: prod.splits)

lemma draw_rows_shape:
  "draw_rows draw n m g = (rs, g') \<Longrightarrow> length rs = n \<and> list_all (\<lambda>row. length row = m) rs"
  by (induction n arbitrary: g rs g') (auto split: prod.splits dest: draws_length)

lemma norm_rvs_shape:
  assumes "0 \<le> m"
  shows "\<exists>Z g'. norm_rvs draw n m g = Inr (Z, g')
     \<and> ncols Z = nat m \<and> length (rows Z) = n \<and> wf_array2 Z"
proof -
  obtain rs g' where d: "draw_rows draw n (nat m) g = (rs, g')"
    by (cases "draw_rows draw n (nat m) g")
  show ?thesis
    using assms draw_rows_shape [OF d]
    by (simp add: norm_rvs_def d wf_array2_def)
qed

lemma payoffs_nonneg: "list_all (\<lambda>x. 0 \<le> x) (discounted_call_payoff S_T K r T)"
  by (simp add: discounted_call_payoff_def list_all_iff)

lemma np_mean_nonneg:
  assumes "xs \<noteq> []" "list_all (\<lambda>x. 0 \<le> x) xs"
  shows "\<exists>m. np_mean xs = Some m \<and> 0 \<le> m"
proof -
  have "0 \<le> sum_list xs"
    using assms(2) by (intro sum_list_nonneg) (simp add: list_all_iff)
  then show ?thesis
    using assms(1) by (simp add: np_mean_def)
qed

lemma reduced_mean_nonneg:
  assumes "S_T \<noteq> []"
  shows "\<exists>m. fst (mc_reduce i (discounted_call_payoff S_T K r T)) = Some m \<and> 0 \<le> m"
proof -
  have "discounted_call_payoff S_T K r T \<noteq> []"
    using assms by (simp add: discounted_call_payoff_def)
  from np_mean_nonneg [OF this payoffs_nonneg]
  show ?thesis by (simp add: mc_reduce_def)
qed

lemma mc_trial_outcome:
  assumes "0 < i"
  shows "(\<exists>e g'. mc_trial draw S_0 r sigma K T L i g = Inr (e, g')
            \<and> (\<exists>m. fst e = Some m \<and> 0 \<le> m))
       \<or> mc_trial draw S_0 r sigma K T L i g = Inl ValueError"
proof (cases "months T < 0")
  case True
  then show ?thesis by (simp add: mc_trial_def norm_rvs_def)
next
  case False
  then obtain Z g' where Z: "norm_rvs draw (i * 1000) (months T) g = Inr (Z, g')"
    "length (rows Z) = i * 1000"
    using norm_rvs_shape [of "months T" draw "i * 1000" g] by auto
  from option_payoff_outcome [of S_0 r sigma Z "time_grid T" L]
  show ?thesis
  proof
    assume "option_payoff S_0 r sigma Z (time_grid T) L = Inl ValueError"
    then show ?thesis by (simp add: mc_trial_def Z(1))
  next
    assume "\<exists>out. option_payoff S_0 r sigma Z (time_grid T) L = Inr out
        \<and> length out = length (rows Z)"
    then obtain S_T where S: "option_payoff S_0 r sigma Z (time_grid T) L = Inr S_T"
      "length S_T = i * 1000"
      using Z(2) by auto
    have "S_T \<noteq> []" using S(2) assms by auto
    from reduced_mean_nonneg [OF this, of i K r T]
    show ?thesis by (simp add: mc_trial_def Z(1) S(1))
  qed
qed

lemma sweep_outcome:
  assumes "list_all (\<lambda>i. 0 < i) is"
  shows "(\<exists>ests g'. sweep draw S_0 r sigma K T L is g = Inr (ests, g')
            \<and> length ests = length is
            \<and> list_all (\<lambda>e. \<exists>m. fst e = Some m \<and> 0 \<le> m) ests)
       \<or> sweep draw S_0 r sigma K T L is g = Inl ValueError"
  using assms
proof (induction "is" arbitrary: g)
  case Nil
  then show ?case by simp
next
  case (Cons i "is")
  then have i: "0 < i" and rest: "list_all (\<lambda>i. 0 < i) is" by simp_all
  from mc_trial_outcome [OF i, of draw S_0 r sigma K T L g]
  show ?case
  proof
    assume "mc_trial draw S_0 r sigma K T L i g = Inl ValueError"
    then show ?thesis by simp
  next
    assume "\<exists>e g'. mc_trial draw S_0 r sigma K T L i g = Inr (e, g')
        \<and> (\<exists>m. fst e = Some m \<and> 0 \<le> m)"
    then obtain e g1 where e: "mc_trial draw S_0 r sigma K T L i g = Inr (e, g1)"
      "\<exists>m. fst e = Some m \<and> 0 \<le> m" by blast
    from Cons.IH [OF rest, of g1] show ?thesis
    proof
      assume "sweep draw S_0 r sigma K T L is g1 = Inl ValueError"
      then show ?thesis by (simp add: e(1))
    next
      assume "\<exists>ests g'. sweep draw S_0 r sigma K T L is g1 = Inr (ests, g')
          \<and> length ests = length is
          \<and> list_all (\<lambda>e. \<exists>m. fst e = Some m \<and> 0 \<le> m) ests"
      then obtain ests g2 where "sweep draw S_0 r sigma K T L is g1 = Inr (ests, g2)"
        "length ests = length is" "list_all (\<lambda>e. \<exists>m. fst e = Some m \<and> 0 \<le> m) ests"
        by blast
      then show ?thesis using e by simp
    qed
  qed
qed

lemma mc_trial_returns:
  assumes "1 \<le> months T" "length (time_grid T) = nat (months T)"
  shows "\<exists>e g'. mc_trial draw S_0 r sigma K T L i g = Inr (e, g')"
proof -
  obtain Z g' where Z: "norm_rvs draw (i * 1000) (months T) g = Inr (Z, g')"
    "ncols Z = nat (months T)" "wf_array2 Z"
    using norm_rvs_shape [of "months T" draw "i * 1000" g] assms(1) by auto
  have len: "ncols Z = length (time_grid T)" "1 \<le> length (time_grid T)"
    using assms by (simp_all add: Z(2))
  show ?thesis
    by (simp add: mc_trial_def Z(1) option_payoff_matching [OF Z(3) len])
qed

lemma sweep_returns:
  assumes "1 \<le> months T" "length (time_grid T) = nat (months T)"
  shows "\<exists>ests g'. sweep draw S_0 r sigma K T L is g = Inr (ests, g')"
proof (induction "is" arbitrary: g)
  case Nil
  then show ?case by simp
next
  case (Cons i "is")
  obtain e g1 where e: "mc_trial draw S_0 r sigma K T L i g = Inr (e, g1)"
    using mc_trial_returns [OF assms, of draw S_0 r sigma K L i g] by blast
  obtain ests g2 where "sweep draw S_0 r sigma K T L is g1 = Inr (ests, g2)"
    using Cons.IH [of g1] by blast
  then show ?case using e by simp
qed

text \<open>
  Claim C7. For every vector of terminal values and every \<open>K\<close>, \<open>r\<close>, \<open>T\<close>, each
  discounted payoff \<open>exp (- r T) max (S_T - K, 0)\<close> is at least 0, and hence the mean that
  the reduction stores for a non-empty vector is a real number that is at least 0. For
  every maturity, every generator and every other parameter, the cell either completes
  with fifty estimates, each with such a mean, or raises \<^verbatim>\<open>ValueError\<close>. It completes when
  \<open>months\<close> is at least one and the schedule has \<open>months\<close> instants.
\<close>

theorem payoffs_and_means_nonneg:
  "list_all (\<lambda>x. 0 \<le> x) (discounted_call_payoff S_T K r T)
   \<and> (S_T \<noteq> [] \<longrightarrow>
        (\<exists>m. fst (mc_reduce i (discounted_call_payoff S_T K r T)) = Some m \<and> 0 \<le> m))
   \<and> ((\<exists>ests g'. monte_carlo mk draw seed S_0 r sigma K T L g = Inr (ests, g')
          \<and> length ests = 50
          \<and> list_all (\<lambda>e. \<exists>m. fst e = Some m \<and> 0 \<le> m) ests)
        \<or> monte_carlo mk draw seed S_0 r sigma K T L g = Inl ValueError)
   \<and> (1 \<le> months T \<and> length (time_grid T) = nat (months T) \<longrightarrow>
        (\<exists>ests g'. monte_carlo mk draw seed S_0 r sigma K T L g = Inr (ests, g')
          \<and> length ests = 50
          \<and> list_all (\<lambda>e. \<exists>m. fst e = Some m \<and> 0 \<le> m) ests))"
proof -
  have pos: "list_all (\<lambda>i. 0 < i) [1..<51]"
    by (simp add: list_all_iff)
  have out: "(\<exists>ests g'. monte_carlo mk draw seed S_0 r sigma K T L g = Inr (ests, g')
          \<and> length ests = 50
          \<and> list_all (\<lambda>e. \<exists>m. fst e = Some m \<and> 0 \<le> m) ests)
        \<or> monte_carlo mk draw seed S_0 r sigma K T L g = Inl ValueError"
    using sweep_outcome [OF pos, of draw S_0 r sigma K T L "np_random_seed mk seed g"]
    by (simp add: monte_carlo_def)
  have ret: "\<exists>ests g'. monte_carlo mk draw seed S_0 r sigma K T L g = Inr (ests, g')
          \<and> length ests = 50
          \<and> list_all (\<lambda>e. \<exists>m. fst e = Some m \<and> 0 \<le> m) ests"
    if "1 \<le> months T \<and> length (time_grid T) = nat (months T)"
  proof -
    from that have "\<exists>ests g'. monte_carlo mk draw seed S_0 r sigma K T L g = Inr (ests, g')"
      using sweep_returns [of T draw S_0 r sigma K L "[1..<51]" "np_random_seed mk seed g"]
      by (simp add: monte_carlo_def)
    then show ?thesis using out by auto
  qed
  show ?thesis
    using payoffs_nonneg [of S_T K r T] reduced_mean_nonneg [of S_T i K r T] out ret
    by blast
qed

theorem payoffs_and_means_nonneg_witness:
  "[0, 150 :: real] \<noteq> [] \<and> 1 \<le> months 1 \<and> length (time_grid 1) = nat (months 1)
   \<and> list_all (\<lambda>x. 0 \<le> x) (discounted_call_payoff [0, 150] 100 (2 / 25) 1)
   \<and> (\<exists>m. fst (mc_reduce 1 (discounted_call_payoff [0, 150] 100 (2 / 25) 1)) = Some m \<and> 0 \<le> m)
   \<and> (\<exists>ests g'. monte_carlo (\<lambda>s. s) counter_draw 0 100 (2 / 25) (3 / 10) 100 1 150 7
                   = Inr (ests, g')
          \<and> length ests = 50
          \<and> list_all (\<lambda>e. \<exists>m. fst e = Some m \<and> 0 \<le> m) ests)"
proof -
  have h: "[0, 150 :: real] \<noteq> []" by simp
  have w: "1 \<le> months 1 \<and> length (time_grid 1) = nat (months 1)"
    by (simp add: time_grid_year)
  note t = payoffs_and_means_nonneg [of "[0, 150]" 100 "2 / 25" 1 1 "\<lambda>s. s" counter_draw 0
      100 "3 / 10" 150 7]
  show ?thesis
    using h w t [THEN conjunct1] t [THEN conjunct2, THEN conjunct1, THEN mp, OF h]
      t [THEN conjunct2, THEN conjunct2, THEN conjunct2, THEN mp, OF w]
    by (intro conjI) simp_all
qed

text \<open>
  At \<open>T = 1/6\<close> the schedule has three instants for two columns of draws, and the first
  trial raises.
\<close>

lemma two_month_maturity_raises:
  "monte_carlo mk draw seed S_0 r sigma K (1 / 6) L g = Inl ValueError"
proof -
  obtain Z g' where Z: "norm_rvs draw 1000 (months (1 / 6)) (np_random_seed mk seed g) = Inr (Z, g')"
    "ncols Z = nat (months (1 / 6))"
    using norm_rvs_shape [of "months (1 / 6)" draw 1000 "np_random_seed mk seed g"]
    by (auto simp: time_grid_two_months)
  have "option_payoff S_0 r sigma Z (time_grid (1 / 6)) L = Inl ValueError"
    by (simp add: option_payoff_cases Z(2) time_grid_two_months broadcast_cols_def)
  then have "mc_trial draw S_0 r sigma K (1 / 6) L 1 (np_random_seed mk seed g) = Inl ValueError"
    by (simp add: mc_trial_def Z(1))
  then show ?thesis
    by (simp add: monte_carlo_def upt_conv_Cons)
qed


section \<open>Claim C6: invalid parameters are not rejected\<close>







end
